theory Spec2Isabelle
  imports Complex_Main "HOL-Library.AList"
begin

section \<open>Scroll restoration: the cache, save and restore\<close>

text \<open>
  A shallow embedding of \<^verbatim>\<open>packages/scroll-restoration/src/scroll-restoration.ts\<close>,
  \<^verbatim>\<open>shapes.ts\<close> and \<^verbatim>\<open>helpers.ts\<close>.

  Conventions of the embedding.
  \<^item> A JavaScript object used as a dictionary (\<^verbatim>\<open>Record<string, ...>\<close>) is an association
    list in the order \<^verbatim>\<open>for ... in\<close> enumerates it: assigning an existing key keeps its
    place, assigning a new key appends it, \<^verbatim>\<open>delete\<close> removes it. (Keys that are canonical
    array indices, which JavaScript enumerates first, are not treated apart: no key the
    program writes is one.)
  \<^item> A JavaScript \<^verbatim>\<open>number\<close> stored in the cache is \<open>NaN\<close> or a real; the offsets the
    browser reports (\<^verbatim>\<open>window.scrollX\<close>, \<^verbatim>\<open>element.scrollLeft\<close>) are reals.
  \<^item> The browser is a record \<open>World\<close>: whether \<^verbatim>\<open>window\<close> is defined, the module's
    \<^verbatim>\<open>cache\<close>, what \<^verbatim>\<open>sessionStorage\<close> holds under the storage key, the live offsets,
    \<^verbatim>\<open>document.querySelector\<close> as a function that returns an element or \<^verbatim>\<open>null\<close>, or
    throws a \<^verbatim>\<open>SyntaxError\<close> on a selector the platform rejects, the node and the \<^verbatim>\<open>data-scroll-restoration-id\<close> attribute of
    each element, the targets in \<^verbatim>\<open>weakScrolledElements\<close>, and the list of scroll requests issued so far
    (\<^verbatim>\<open>window.scrollTo\<close> calls and assignments to \<^verbatim>\<open>scrollLeft\<close>/\<^verbatim>\<open>scrollTop\<close>).
  \<^item> The source catches no exception. A function that changes the browser returns how it
    ended, \<open>Completed\<close> or \<open>Aborted\<close> with the exception, together with the browser as it
    is at that moment.
\<close>

subsection \<open>Constants\<close>

text \<open>
  Modelled from the spec: \<^verbatim>\<open>./constants\<close> is imported by the source but is not among the
  source files. The spec describes the delimiter as a fixed triple-underscore token and
  the storage key as a fixed namespaced key; the values below are the ones the
  repository's test file uses (\<^verbatim>\<open>`${locationKey}___window`\<close>,
  \<^verbatim>\<open>'scroll-restoration-v2'\<close>).
\<close>

definition delimiter :: string where
  "delimiter = ''___''"

definition windowKey :: string where
  "windowKey = ''window''"

definition storageKey :: string where
  "storageKey = ''scroll-restoration-v2''"

subsection \<open>Shapes\<close>

datatype number = NaN | Num real

record ScrollEntry =
  scrollX :: number
  scrollY :: number

type_synonym CacheValue = "(string \<times> ScrollEntry) list"

record CacheState =
  cached :: CacheValue
  "next" :: CacheValue

text \<open>\<^verbatim>\<open>location.state\<close> is optional, and so is its \<^verbatim>\<open>key\<close>.\<close>

record HistoryState =
  key :: "string option"

record Location =
  href :: string
  pathname :: string
  search :: string
  hash :: string
  history_state :: "HistoryState option"

datatype 'a NonNullableUpdater = Value 'a | Updater "'a \<Rightarrow> 'a"

text \<open>
  \<^verbatim>\<open>createCache\<close> returns one of two \<^verbatim>\<open>set\<close> functions: the empty function when there is
  no \<^verbatim>\<open>window\<close> or no \<^verbatim>\<open>sessionStorage\<close>, and the one that updates the state and writes
  it to storage otherwise.
\<close>

datatype set_impl = NoopSet | PersistSet

record Cache =
  state :: CacheState
  set_impl :: set_impl

subsection \<open>DOM nodes and the selector helper\<close>

text \<open>
  What \<^verbatim>\<open>getCssSelector\<close> reads of a node: its identity (\<^verbatim>\<open>indexOf\<close> compares objects),
  \<^verbatim>\<open>nodeName\<close>, \<^verbatim>\<open>tagName\<close>, the identities of its element children, and
  \<^verbatim>\<open>parentNode\<close>. A node carries its chain of ancestors, which is finite, as in a DOM
  tree.
\<close>

type_synonym element = nat

datatype Node =
  Node (ident: element) (nodeName: string) (tagName: string) (children: "element list")
       (parentNode: "Node option")

text \<open>\<^verbatim>\<open>array.indexOf(x)\<close>: the first index of \<open>x\<close>, or \<open>-1\<close>.\<close>

fun indexOf :: "'a list \<Rightarrow> 'a \<Rightarrow> int" where
  "indexOf [] x = - 1"
| "indexOf (y # ys) x =
     (if y = x then 0 else (let i = indexOf ys x in if i < 0 then - 1 else i + 1))"

text \<open>The decimal text of an integer, as a template literal prints it.\<close>

definition digit_char :: "nat \<Rightarrow> char" where
  "digit_char d = ''0123456789'' ! d"

fun decimal :: "nat \<Rightarrow> string" where
  "decimal n = (if n < 10 then [digit_char n] else decimal (n div 10) @ [digit_char (n mod 10)])"

declare decimal.simps [simp del]

definition int_text :: "int \<Rightarrow> string" where
  "int_text i = (if 0 \<le> i then decimal (nat i) else CHR ''-'' # decimal (nat (- i)))"

text \<open>\<^verbatim>\<open>toLowerCase\<close> on the ASCII letters.\<close>

definition toLowerCase_char :: "char \<Rightarrow> char" where
  "toLowerCase_char c =
     (case map_of (zip ''ABCDEFGHIJKLMNOPQRSTUVWXYZ'' ''abcdefghijklmnopqrstuvwxyz'') c of
        Some l \<Rightarrow> l
      | None \<Rightarrow> c)"

definition toLowerCase :: "string \<Rightarrow> string" where
  "toLowerCase s = map toLowerCase_char s"

text \<open>\<^verbatim>\<open>parts.join(separator)\<close>.\<close>

fun join :: "string list \<Rightarrow> string \<Rightarrow> string" where
  "join [] sep = []"
| "join [p] sep = p"
| "join (p # q # ps) sep = p @ sep @ join (q # ps) sep"

text \<open>
  The loop of \<^verbatim>\<open>getCssSelector\<close>, on \<^verbatim>\<open>path\<close> and \<^verbatim>\<open>current\<close>: it runs while
  \<^verbatim>\<open>current.parentNode\<close> is not null and is not named \<^verbatim>\<open>HTML\<close>, and puts the level of
  \<^verbatim>\<open>current\<close> in front of the path.
\<close>

fun getCssSelector_loop :: "string list \<Rightarrow> Node \<Rightarrow> string list" where
  "getCssSelector_loop path (Node i nn tn ch None) = path"
| "getCssSelector_loop path (Node i nn tn ch (Some parent)) =
     (if nodeName parent \<noteq> ''HTML''
      then getCssSelector_loop
             ((tn @ '':nth-child('' @ int_text (indexOf (children parent) i + 1) @ '')'') # path)
             parent
      else path)"

definition getCssSelector :: "Node \<Rightarrow> string" where
  "getCssSelector el = toLowerCase (join (getCssSelector_loop [] el) '' > '')"

text \<open>
  The selector as the specification words it, to compare with the loop: a level for the
  element and for each of its ancestors, up to but excluding the document root (the node
  named \<^verbatim>\<open>HTML\<close>); each level is a tag name and the 1-based position of the node among
  its parent's children.
\<close>

definition position_among :: "element list \<Rightarrow> element \<Rightarrow> nat" where
  "position_among siblings i = Suc (length (takeWhile (\<lambda>j. j \<noteq> i) siblings))"

fun claimed_levels :: "Node \<Rightarrow> (string \<times> nat) list" where
  "claimed_levels (Node i nn tn ch None) = []"
| "claimed_levels (Node i nn tn ch (Some parent)) =
     (if nn = ''HTML'' then []
      else claimed_levels parent @ [(tn, position_among (children parent) i)])"

text \<open>
  The levels with the stop rule of the loop: a node has a level when it has a parent and
  that parent is not named \<^verbatim>\<open>HTML\<close>, and the walk ends at the first node that has none.
  So the node just below the root (\<^verbatim>\<open>body\<close>) has no level, and the root has one.
\<close>

fun selector_levels :: "Node \<Rightarrow> (string \<times> nat) list" where
  "selector_levels (Node i nn tn ch None) = []"
| "selector_levels (Node i nn tn ch (Some parent)) =
     (if nodeName parent = ''HTML'' then []
      else selector_levels parent @ [(tn, position_among (children parent) i)])"

definition level_text :: "string \<times> nat \<Rightarrow> string" where
  "level_text l = fst l @ '':nth-child('' @ decimal (snd l) @ '')''"

text \<open>In a DOM tree every node is one of the children of its parent.\<close>

fun child_of_parent :: "Node \<Rightarrow> bool" where
  "child_of_parent (Node i nn tn ch None) = True"
| "child_of_parent (Node i nn tn ch (Some parent)) =
     (i \<in> set (children parent) \<and> child_of_parent parent)"

subsection \<open>The browser\<close>

datatype exception = SyntaxError

datatype outcome = Completed | Aborted exception

datatype target = DocumentTarget | WindowTarget | ElementTarget element

datatype call =
    ScrollToOptions (top: number) (left: number) (behavior: "string option")
  | ScrollToXY real real
  | SetScrollLeft element number
  | SetScrollTop element number

record World =
  window_defined :: bool
  cache :: Cache
  storage_item :: "CacheState option"
  window_scrollX :: real
  window_scrollY :: real
  querySelector :: "string \<Rightarrow> exception + element option"
  scrollLeft :: "element \<Rightarrow> real"
  scrollTop :: "element \<Rightarrow> real"
  dom_node :: "element \<Rightarrow> Node"
  restoration_id :: "element \<Rightarrow> string option"
  weakScrolledElements :: "target set"
  calls :: "call list"

subsection \<open>Helpers\<close>

text \<open>\<^verbatim>\<open>functionalUpdate(updater, value)\<close> of \<^verbatim>\<open>helpers.ts\<close>.\<close>

fun functionalUpdate :: "'a NonNullableUpdater \<Rightarrow> 'a \<Rightarrow> 'a" where
  "functionalUpdate (Updater f) v = f v"
| "functionalUpdate (Value x) v = x"

text \<open>
  \<^verbatim>\<open>cache.set(updater)\<close>: the persistent variant assigns \<^verbatim>\<open>cache.state\<close> and writes
  \<^verbatim>\<open>JSON.stringify(cache.state)\<close> under the storage key (\<open>storage_item\<close> holds the state
  that was serialised); the other variant does nothing.
\<close>

definition cache_set :: "CacheState NonNullableUpdater \<Rightarrow> World \<Rightarrow> World" where
  "cache_set updater w =
     (case set_impl (cache w) of
        NoopSet \<Rightarrow> w
      | PersistSet \<Rightarrow>
          (let st = functionalUpdate updater (state (cache w))
           in w\<lparr>cache := (cache w)\<lparr>state := st\<rparr>, storage_item := Some st\<rparr>))"

text \<open>The expression \<^verbatim>\<open>x || 0\<close> on a number: \<open>NaN\<close> and zero are falsy.\<close>

fun or0 :: "number \<Rightarrow> number" where
  "or0 NaN = Num 0"
| "or0 (Num r) = (if r = 0 then Num 0 else Num r)"

text \<open>
  \<^verbatim>\<open>s.split(separator)\<close> for a string separator: the parts between successive
  occurrences of the separator, found from left to right; with the empty separator,
  the characters of \<open>s\<close>.
\<close>

function split_go :: "string \<Rightarrow> string \<Rightarrow> string \<Rightarrow> string list" where
  "split_go sep part [] = [part]"
| "split_go sep part (c # cs) =
     (if sep \<noteq> [] \<and> take (length sep) (c # cs) = sep
      then part # split_go sep [] (drop (length sep) (c # cs))
      else split_go sep (part @ [c]) cs)"
  by pat_completeness auto
termination
  by (relation "measure (\<lambda>(sep, part, s). length s)") auto

definition split :: "string \<Rightarrow> string \<Rightarrow> string list" where
  "split s sep = (if sep = [] then map (\<lambda>c. [c]) s else split_go sep [] s)"

text \<open>
  The destructuring \<^verbatim>\<open>const [key, elementSelector] = parts\<close>: the first two elements,
  each \<^verbatim>\<open>undefined\<close> (\<open>None\<close>) when the array is too short.
\<close>

fun destructure2 :: "string list \<Rightarrow> string option \<times> string option" where
  "destructure2 [] = (None, None)"
| "destructure2 [k] = (Some k, None)"
| "destructure2 (k # s # _) = (Some k, Some s)"

text \<open>\<^verbatim>\<open>[locationKey, elementSelector].join(delimiter)\<close>.\<close>

definition compositeKey :: "string \<Rightarrow> string \<Rightarrow> string" where
  "compositeKey locationKey elementSelector = locationKey @ delimiter @ elementSelector"

subsection \<open>Location keys\<close>

text \<open>\<^verbatim>\<open>location.state?.key || location.href\<close>: an empty key is falsy.\<close>

definition defaultGetKey :: "Location \<Rightarrow> string" where
  "defaultGetKey location =
     (case history_state location of
        None \<Rightarrow> href location
      | Some st \<Rightarrow>
          (case key st of
             None \<Rightarrow> href location
           | Some k \<Rightarrow> if k \<noteq> [] then k else href location))"

subsection \<open>Saving\<close>

text \<open>
  The offsets the save step assigns to \<^verbatim>\<open>entry\<close> for one selector: the window's for
  the window key, the element's for any other non-empty selector (zero when
  \<^verbatim>\<open>querySelector\<close> returns \<^verbatim>\<open>null\<close>), and nothing for the empty selector, whose entry
  stays as it is. When \<^verbatim>\<open>querySelector\<close> throws, nothing has been assigned yet.
\<close>

definition read_offsets :: "World \<Rightarrow> string \<Rightarrow> ScrollEntry \<Rightarrow> exception + ScrollEntry" where
  "read_offsets w elementSelector entry =
     (if elementSelector = windowKey then
        Inr (entry\<lparr>scrollX := or0 (Num (window_scrollX w)), scrollY := or0 (Num (window_scrollY w))\<rparr>)
      else if elementSelector \<noteq> [] then
        (case querySelector w elementSelector of
           Inl e \<Rightarrow> Inl e
         | Inr None \<Rightarrow> Inr (entry\<lparr>scrollX := Num 0, scrollY := Num 0\<rparr>)
         | Inr (Some el) \<Rightarrow>
             Inr (entry\<lparr>scrollX := or0 (Num (scrollLeft w el)), scrollY := or0 (Num (scrollTop w el))\<rparr>))
      else Inr entry)"

text \<open>
  One iteration of the loop of \<^verbatim>\<open>saveScrollPositions\<close>. The entry is the object held by
  \<^verbatim>\<open>cache.state.next\<close>, so assigning its fields changes \<open>next\<close> in place; then
  \<^verbatim>\<open>cache.set\<close> removes the selector from \<open>next\<close> and stores the entry in \<open>cached\<close>.
  An exception of \<^verbatim>\<open>querySelector\<close> leaves the iteration before any of this. The selector
  is a key of \<open>next\<close> when the iteration runs, so the lookup cannot fail in the program;
  the model leaves the world as it is in that case.
\<close>

definition save_step :: "string \<Rightarrow> string \<Rightarrow> World \<Rightarrow> exception + World" where
  "save_step locationKey elementSelector w =
     (case map_of (next (state (cache w))) elementSelector of
        None \<Rightarrow> Inr w
      | Some entry0 \<Rightarrow>
          (case read_offsets w elementSelector entry0 of
             Inl e \<Rightarrow> Inl e
           | Inr entry \<Rightarrow>
               (let st = state (cache w);
                    w1 = w\<lparr>cache := (cache w)\<lparr>state := st\<lparr>next := AList.update elementSelector entry (next st)\<rparr>\<rparr>\<rparr>
                in Inr (cache_set
                     (Updater (\<lambda>c. c\<lparr>next := AList.delete elementSelector (next c),
                                     cached := AList.update (compositeKey locationKey elementSelector) entry (cached c)\<rparr>))
                     w1))))"

text \<open>
  \<^verbatim>\<open>for (const elementSelector in cache.state.next)\<close>: the keys of the object that
  \<^verbatim>\<open>cache.state.next\<close> is when the loop starts; each \<^verbatim>\<open>cache.set\<close> builds a new object
  and leaves that one untouched. An exception ends the loop, and the function.
\<close>

fun save_loop :: "string \<Rightarrow> string list \<Rightarrow> World \<Rightarrow> outcome \<times> World" where
  "save_loop locationKey [] w = (Completed, w)"
| "save_loop locationKey (elementSelector # rest) w =
     (case save_step locationKey elementSelector w of
        Inl e \<Rightarrow> (Aborted e, w)
      | Inr w' \<Rightarrow> save_loop locationKey rest w')"

definition saveScrollPositions ::
  "(Location \<Rightarrow> string) \<Rightarrow> Location \<Rightarrow> World \<Rightarrow> outcome \<times> World" where
  "saveScrollPositions getKey currentLocation w =
     (if \<not> window_defined w then (Completed, w)
      else save_loop (getKey currentLocation) (map fst (next (state (cache w)))) w)"

subsection \<open>Restoring\<close>

text \<open>
  One iteration of the loop of \<^verbatim>\<open>restoreScrollPositions\<close>, on the flag
  \<^verbatim>\<open>windowRestored\<close> and the world. The call of \<^verbatim>\<open>querySelector\<close> is the first thing the
  element branch does, so an exception leaves both as they were.
\<close>

definition restore_step ::
  "string \<Rightarrow> string option \<Rightarrow> string \<times> ScrollEntry \<Rightarrow> bool \<times> World \<Rightarrow> exception + bool \<times> World" where
  "restore_step locationKey scrollBehavior ce acc =
     (case (ce, acc) of ((cacheKey, entry), (windowRestored, w)) \<Rightarrow>
        (case destructure2 (split cacheKey delimiter) of (keyPart, elementSelector) \<Rightarrow>
           if keyPart = Some locationKey then
             if elementSelector = Some windowKey then
               Inr (True, w\<lparr>calls := calls w @ [ScrollToOptions (scrollY entry) (scrollX entry) scrollBehavior]\<rparr>)
             else if elementSelector \<noteq> None \<and> elementSelector \<noteq> Some [] then
               (case querySelector w (the elementSelector) of
                  Inl e \<Rightarrow> Inl e
                | Inr None \<Rightarrow> Inr (windowRestored, w)
                | Inr (Some el) \<Rightarrow>
                    Inr (windowRestored,
                         w\<lparr>calls := calls w @ [SetScrollLeft el (scrollX entry), SetScrollTop el (scrollY entry)]\<rparr>))
             else Inr (windowRestored, w)
           else Inr (windowRestored, w)))"

fun restore_loop ::
  "string \<Rightarrow> string option \<Rightarrow> CacheValue \<Rightarrow> bool \<times> World \<Rightarrow> outcome \<times> bool \<times> World" where
  "restore_loop locationKey scrollBehavior [] acc = (Completed, acc)"
| "restore_loop locationKey scrollBehavior (ce # rest) acc =
     (case restore_step locationKey scrollBehavior ce acc of
        Inl e \<Rightarrow> (Aborted e, acc)
      | Inr acc' \<Rightarrow> restore_loop locationKey scrollBehavior rest acc')"

text \<open>
  After the loop: the fallback to the origin, \<^verbatim>\<open>cache.set\<close> with an empty \<open>next\<close>, and
  a new \<^verbatim>\<open>WeakSet\<close>. None of them runs when the loop threw.
\<close>

definition restoreScrollPositions ::
  "(Location \<Rightarrow> string) \<Rightarrow> string option \<Rightarrow> Location \<Rightarrow> World \<Rightarrow> outcome \<times> World" where
  "restoreScrollPositions getKey scrollBehavior currentLocation w =
     (if \<not> window_defined w then (Completed, w)
      else
        (case restore_loop (getKey currentLocation) scrollBehavior (cached (state (cache w))) (False, w) of
           (Aborted e, (windowRestored, w1)) \<Rightarrow> (Aborted e, w1)
         | (Completed, (windowRestored, w1)) \<Rightarrow>
             (let w2 = (if \<not> windowRestored then w1\<lparr>calls := calls w1 @ [ScrollToXY 0 0]\<rparr> else w1);
                  w3 = cache_set (Updater (\<lambda>c. c\<lparr>next := []\<rparr>)) w2
              in (Completed, w3\<lparr>weakScrolledElements := {}\<rparr>))))"

text \<open>
  What one \<open>cached\<close> entry contributes to a restore for a location key, written without
  the loop: the exception it raises, if any, the scroll requests it causes, and whether
  it sets \<^verbatim>\<open>windowRestored\<close>.
\<close>

definition entry_error ::
  "string \<Rightarrow> (string \<Rightarrow> exception + element option) \<Rightarrow> string \<times> ScrollEntry \<Rightarrow> exception option" where
  "entry_error locationKey query ce =
     (case destructure2 (split (fst ce) delimiter) of (keyPart, elementSelector) \<Rightarrow>
        if keyPart \<noteq> Some locationKey then None
        else if elementSelector = Some windowKey then None
        else
          (case elementSelector of
             None \<Rightarrow> None
           | Some sel \<Rightarrow>
               if sel = [] then None
               else (case query sel of Inl e \<Rightarrow> Some e | Inr found \<Rightarrow> None)))"

definition entry_calls ::
  "string \<Rightarrow> string option \<Rightarrow> (string \<Rightarrow> exception + element option) \<Rightarrow> string \<times> ScrollEntry \<Rightarrow> call list" where
  "entry_calls locationKey scrollBehavior query ce =
     (case destructure2 (split (fst ce) delimiter) of (keyPart, elementSelector) \<Rightarrow>
        if keyPart \<noteq> Some locationKey then []
        else if elementSelector = Some windowKey
        then [ScrollToOptions (scrollY (snd ce)) (scrollX (snd ce)) scrollBehavior]
        else
          (case elementSelector of
             None \<Rightarrow> []
           | Some sel \<Rightarrow>
               if sel = [] then []
               else
                 (case query sel of
                    Inl e \<Rightarrow> []
                  | Inr None \<Rightarrow> []
                  | Inr (Some el) \<Rightarrow> [SetScrollLeft el (scrollX (snd ce)), SetScrollTop el (scrollY (snd ce))])))"

text \<open>The entries the loop gets through: those before the first one that raises.\<close>

definition reached ::
  "string \<Rightarrow> (string \<Rightarrow> exception + element option) \<Rightarrow> CacheValue \<Rightarrow> CacheValue" where
  "reached locationKey query cv = takeWhile (\<lambda>ce. entry_error locationKey query ce = None) cv"

definition loop_outcome ::
  "string \<Rightarrow> (string \<Rightarrow> exception + element option) \<Rightarrow> CacheValue \<Rightarrow> outcome" where
  "loop_outcome locationKey query cv =
     (case dropWhile (\<lambda>ce. entry_error locationKey query ce = None) cv of
        [] \<Rightarrow> Completed
      | ce # rest \<Rightarrow> Aborted (the (entry_error locationKey query ce)))"

definition is_window_entry :: "string \<Rightarrow> string \<times> ScrollEntry \<Rightarrow> bool" where
  "is_window_entry locationKey ce =
     (destructure2 (split (fst ce) delimiter) = (Some locationKey, Some windowKey))"

text \<open>An entry was saved under a location key when its composite key starts with that
  key and the delimiter.\<close>

definition saved_under :: "string \<Rightarrow> string \<Rightarrow> bool" where
  "saved_under locationKey cacheKey =
     (take (length locationKey + length delimiter) cacheKey = locationKey @ delimiter)"

text \<open>
  A location key splits back when the delimiter does not begin inside it, that is, when
  the first delimiter of each of its composite keys is the one the join put there.
\<close>

fun splits_back :: "string \<Rightarrow> bool" where
  "splits_back [] = True"
| "splits_back (c # cs) =
     (take (length delimiter) (c # cs @ delimiter) \<noteq> delimiter \<and> splits_back cs)"

text \<open>
  What \<^verbatim>\<open>createCache\<close> establishes and every operation keeps: without a window the
  \<^verbatim>\<open>set\<close> function is the empty one, and with the empty \<^verbatim>\<open>set\<close> function the state is
  the initial one.
\<close>

definition cache_created :: "World \<Rightarrow> bool" where
  "cache_created w =
     ((\<not> window_defined w \<longrightarrow> set_impl (cache w) = NoopSet) \<and>
      (set_impl (cache w) = NoopSet \<longrightarrow> state (cache w) = \<lparr>cached = [], next = []\<rparr>))"


subsection \<open>Tracking scroll events\<close>

text \<open>
  \<^verbatim>\<open>onScroll\<close>: a target already in \<^verbatim>\<open>weakScrolledElements\<close> is skipped; otherwise it is
  added, its selector is worked out, and a placeholder entry is put in \<open>next\<close> unless
  the selector is already there.
\<close>

definition attribute_selector :: "string \<Rightarrow> string" where
  "attribute_selector attrId = ''[data-scroll-restoration-id=\"'' @ attrId @ ''\"]''"

definition target_selector :: "World \<Rightarrow> target \<Rightarrow> string" where
  "target_selector w t =
     (case t of
        DocumentTarget \<Rightarrow> windowKey
      | WindowTarget \<Rightarrow> windowKey
      | ElementTarget el \<Rightarrow>
          (case restoration_id w el of
             None \<Rightarrow> getCssSelector (dom_node w el)
           | Some attrId \<Rightarrow>
               if attrId \<noteq> [] then attribute_selector attrId else getCssSelector (dom_node w el)))"

definition onScroll :: "target \<Rightarrow> World \<Rightarrow> World" where
  "onScroll t w =
     (if t \<in> weakScrolledElements w then w
      else
        (let w1 = w\<lparr>weakScrolledElements := insert t (weakScrolledElements w)\<rparr>;
             elementSelector = target_selector w1 t
         in if map_of (next (state (cache w1))) elementSelector = None
            then cache_set
                   (Updater (\<lambda>c. c\<lparr>next := AList.update elementSelector \<lparr>scrollX = NaN, scrollY = NaN\<rparr> (next c)\<rparr>))
                   w1
            else w1))"

fun onScroll_all :: "target list \<Rightarrow> World \<Rightarrow> World" where
  "onScroll_all [] w = w"
| "onScroll_all (t # ts) w = onScroll_all ts (onScroll t w)"

subsection \<open>The hook, the navigation listener and the element query\<close>

text \<open>
  The state around the hook: the browser, \<^verbatim>\<open>window.location\<close> with \<^verbatim>\<open>history.state\<close>,
  \<^verbatim>\<open>lastLocation\<close> of the default navigation listener, \<^verbatim>\<open>locationRef.current\<close>, the
  callbacks waiting for an animation frame, the exceptions that left a listener or a
  frame callback (the platform reports them and goes on: \<^verbatim>\<open>dispatchEvent\<close> does not
  rethrow), and the sequence of the events of interest:
  the dispatch of the save event, the call of the navigate callback (each with the value
  \<^verbatim>\<open>lastLocation\<close> has at that moment), the calls of \<^verbatim>\<open>requestAnimationFrame\<close> and the
  restores that ran.
\<close>

datatype frame_callback = OuterFrame | InnerFrame

datatype event =
    SaveEventDispatched (lastLocation_then: Location)
  | NavigateCallback (argument: Location) (lastLocation_then: Location)
  | AnimationFrameRequested frame_callback
  | Restored Location

record System =
  world :: World
  window_location :: Location
  lastLocation :: Location
  locationRef :: Location
  animation_frames :: "frame_callback list"
  uncaught :: "exception list"
  trace :: "event list"

record ScrollRestorationOptions =
  getKey :: "(Location \<Rightarrow> string) option"
  scrollBehavior :: "string option"
  getCurrentLocation :: "(System \<Rightarrow> Location) option"

definition defaultGetCurrentLocation :: "System \<Rightarrow> Location" where
  "defaultGetCurrentLocation s =
     (if \<not> window_defined (world s)
      then \<lparr>href = [], pathname = [], search = [], hash = [], history_state = None\<rparr>
      else window_location s)"

text \<open>\<^verbatim>\<open>options?.getKey || defaultGetKey\<close> and its like.\<close>

definition the_getKey :: "ScrollRestorationOptions \<Rightarrow> Location \<Rightarrow> string" where
  "the_getKey options = (case getKey options of None \<Rightarrow> defaultGetKey | Some f \<Rightarrow> f)"

definition the_getCurrentLocation :: "ScrollRestorationOptions \<Rightarrow> System \<Rightarrow> Location" where
  "the_getCurrentLocation options =
     (case getCurrentLocation options of None \<Rightarrow> defaultGetCurrentLocation | Some f \<Rightarrow> f)"

fun reported :: "outcome \<Rightarrow> exception list" where
  "reported Completed = []"
| "reported (Aborted e) = [e]"

text \<open>The listener of the save event: \<^verbatim>\<open>saveScrollPositions(locationRef.current)\<close>.\<close>

definition handleScrollSave :: "ScrollRestorationOptions \<Rightarrow> System \<Rightarrow> System" where
  "handleScrollSave options s =
     (case saveScrollPositions (the_getKey options) (locationRef s) (world s) of
        (how, w) \<Rightarrow> s\<lparr>world := w, uncaught := uncaught s @ reported how\<rparr>)"

text \<open>
  \<^verbatim>\<open>saveCurrentScrollPositions\<close>: with a window, the save event is dispatched and its
  listener runs before \<^verbatim>\<open>dispatchEvent\<close> returns.
\<close>

definition saveCurrentScrollPositions :: "ScrollRestorationOptions \<Rightarrow> System \<Rightarrow> System" where
  "saveCurrentScrollPositions options s =
     (if window_defined (world s)
      then handleScrollSave options (s\<lparr>trace := trace s @ [SaveEventDispatched (lastLocation s)]\<rparr>)
      else s)"

text \<open>
  \<^verbatim>\<open>handleNavigation\<close> takes no parameter: the location it is called with is dropped. It
  sets \<^verbatim>\<open>locationRef.current\<close> and asks for an animation frame.
\<close>

definition handleNavigation :: "ScrollRestorationOptions \<Rightarrow> Location \<Rightarrow> System \<Rightarrow> System" where
  "handleNavigation options prevLocation s =
     (let s1 = s\<lparr>trace := trace s @ [NavigateCallback prevLocation (lastLocation s)]\<rparr>;
          s2 = s1\<lparr>locationRef := the_getCurrentLocation options s1\<rparr>
      in s2\<lparr>animation_frames := animation_frames s2 @ [OuterFrame],
            trace := trace s2 @ [AnimationFrameRequested OuterFrame]\<rparr>)"

text \<open>
  One animation frame callback runs: the outer one asks for another frame, the inner one
  calls \<^verbatim>\<open>restoreScrollPositions(locationRef.current)\<close>.
\<close>

definition run_frame :: "ScrollRestorationOptions \<Rightarrow> System \<Rightarrow> System" where
  "run_frame options s =
     (case animation_frames s of
        [] \<Rightarrow> s
      | OuterFrame # rest \<Rightarrow>
          s\<lparr>animation_frames := rest @ [InnerFrame],
            trace := trace s @ [AnimationFrameRequested InnerFrame]\<rparr>
      | InnerFrame # rest \<Rightarrow>
          (case restoreScrollPositions (the_getKey options) (scrollBehavior options)
                  (locationRef s) (world s) of
             (how, w) \<Rightarrow>
               s\<lparr>animation_frames := rest,
                 world := w,
                 uncaught := uncaught s @ reported how,
                 trace := trace s @ [Restored (locationRef s)]\<rparr>))"

text \<open>
  \<^verbatim>\<open>checkForUrlChange\<close> of \<^verbatim>\<open>defaultNavigationListener\<close>, with \<^verbatim>\<open>onNavigate\<close> the callback
  the listener was given.
\<close>

definition checkForUrlChange ::
  "ScrollRestorationOptions \<Rightarrow> (Location \<Rightarrow> System \<Rightarrow> System) \<Rightarrow> System \<Rightarrow> System" where
  "checkForUrlChange options onNavigate s =
     (let currentLocation = defaultGetCurrentLocation s
      in if pathname currentLocation \<noteq> pathname (lastLocation s)
            \<or> search currentLocation \<noteq> search (lastLocation s)
            \<or> hash currentLocation \<noteq> hash (lastLocation s)
         then
           (let prevLocation = lastLocation s;
                s1 = saveCurrentScrollPositions options s;
                s2 = s1\<lparr>lastLocation := currentLocation\<rparr>
            in onNavigate prevLocation s2)
         else s)"

text \<open>\<^verbatim>\<open>useElementScrollRestoration\<close>; \<open>None\<close> is \<^verbatim>\<open>undefined\<close>.\<close>

record ElementOptions =
  element_id :: "string option"
  getElement :: "(unit \<Rightarrow> Node option) option"
  element_getKey :: "(Location \<Rightarrow> string) option"
  element_getCurrentLocation :: "(System \<Rightarrow> Location) option"




subsection \<open>Loading the cache\<close>

text \<open>
  \<^verbatim>\<open>JSON.parse\<close> is the platform's; the model follows the JSON grammar (ECMA-404).
  The result is the syntax tree of the text: a number keeps its literal and a string the
  characters between its quotes, escapes undecoded. Nothing below depends on more than
  whether a text is accepted and whether the value is truthy.
\<close>

datatype JSONValue =
    JNull
  | JBool bool
  | JNumber string
  | JString string
  | JArray "JSONValue list"
  | JObject "(string \<times> JSONValue) list"

text \<open>
  The parser is a recursive descent with a bound on the number of nested calls, so that
  its recursion is structural; \<open>JSON_parse_finishes\<close> below shows that the bound
  \<open>JSON_parse\<close> starts with is never reached.
\<close>

datatype 'a attempt = OutOfFuel | Rejected | Accepted 'a string

definition is_ws :: "char \<Rightarrow> bool" where
  "is_ws c = (c = CHR '' '' \<or> c = CHR 0x09 \<or> c = CHR 0x0A \<or> c = CHR 0x0D)"

definition skip_ws :: "string \<Rightarrow> string" where
  "skip_ws = dropWhile is_ws"

definition is_digit :: "char \<Rightarrow> bool" where
  "is_digit c = (c \<in> set ''0123456789'')"

definition is_hex :: "char \<Rightarrow> bool" where
  "is_hex c = (c \<in> set ''0123456789abcdefABCDEF'')"

definition is_control :: "char \<Rightarrow> bool" where
  "is_control c = ((of_char c :: nat) < 32)"

text \<open>Numbers: an optional minus, an integer part without a leading zero, an optional
  fraction, an optional exponent.\<close>

definition lex_integer :: "string \<Rightarrow> (string \<times> string) option" where
  "lex_integer cs =
     (let r = (if take 1 cs = ''-'' then drop 1 cs else cs);
          ds = takeWhile is_digit r
      in if ds = [] \<or> (take 1 ds = ''0'' \<and> length ds > 1) then None
         else Some (take (length cs - length r) cs @ ds, dropWhile is_digit r))"

definition lex_fraction :: "string \<Rightarrow> (string \<times> string) option" where
  "lex_fraction cs =
     (if take 1 cs = ''.''
      then (let ds = takeWhile is_digit (drop 1 cs)
            in if ds = [] then None else Some (CHR ''.'' # ds, dropWhile is_digit (drop 1 cs)))
      else Some ([], cs))"

definition lex_exponent :: "string \<Rightarrow> (string \<times> string) option" where
  "lex_exponent cs =
     (if take 1 cs = ''e'' \<or> take 1 cs = ''E''
      then (let r = drop 1 cs;
                sg = (if take 1 r = ''+'' \<or> take 1 r = ''-'' then take 1 r else []);
                r' = drop (length sg) r;
                ds = takeWhile is_digit r'
            in if ds = [] then None else Some (take 1 cs @ sg @ ds, dropWhile is_digit r'))
      else Some ([], cs))"

definition lex_number :: "string \<Rightarrow> (string \<times> string) option" where
  "lex_number cs =
     (case lex_integer cs of
        None \<Rightarrow> None
      | Some (i, r1) \<Rightarrow>
          (case lex_fraction r1 of
             None \<Rightarrow> None
           | Some (f, r2) \<Rightarrow>
               (case lex_exponent r2 of
                  None \<Rightarrow> None
                | Some (e, r3) \<Rightarrow> Some (i @ f @ e, r3))))"

text \<open>Strings, from the character after the opening quote: escapes are checked, control
  characters are refused.\<close>

definition is_escape :: "char \<Rightarrow> bool" where
  "is_escape e = (e \<in> set [CHR 0x22, CHR 0x5C, CHR ''/'', CHR ''b'', CHR ''f'', CHR ''n'', CHR ''r'', CHR ''t''])"

fun lex_string :: "string \<Rightarrow> string \<Rightarrow> (string \<times> string) option" where
  "lex_string acc [] = None"
| "lex_string acc (c # cs) =
     (if c = CHR 0x22 then Some (acc, cs)
      else if c = CHR 0x5C then
        (case cs of
           [] \<Rightarrow> None
         | e # cs' \<Rightarrow>
             if is_escape e
             then lex_string (acc @ [c, e]) cs'
             else if e = CHR ''u'' \<and> length (take 4 cs') = 4 \<and> list_all is_hex (take 4 cs')
             then lex_string (acc @ [c, e] @ take 4 cs') (drop 4 cs')
             else None)
      else if is_control c then None
      else lex_string (acc @ [c]) cs)"

text \<open>Values, the elements of an array after its bracket, the members of an object after
  its brace.\<close>

fun parse_value :: "nat \<Rightarrow> string \<Rightarrow> JSONValue attempt"
  and parse_elements :: "nat \<Rightarrow> JSONValue list \<Rightarrow> string \<Rightarrow> JSONValue attempt"
  and parse_members :: "nat \<Rightarrow> (string \<times> JSONValue) list \<Rightarrow> string \<Rightarrow> JSONValue attempt" where
  "parse_value 0 cs = OutOfFuel"
| "parse_value (Suc n) cs =
     (case skip_ws cs of
        [] \<Rightarrow> Rejected
      | c # r \<Rightarrow>
          if c = CHR ''{'' then
            (if take 1 (skip_ws r) = ''}'' then Accepted (JObject []) (drop 1 (skip_ws r))
             else parse_members n [] r)
          else if c = CHR ''['' then
            (if take 1 (skip_ws r) = '']'' then Accepted (JArray []) (drop 1 (skip_ws r))
             else parse_elements n [] r)
          else if c = CHR 0x22 then
            (case lex_string [] r of None \<Rightarrow> Rejected | Some (s, r') \<Rightarrow> Accepted (JString s) r')
          else if take 4 (c # r) = ''null'' then Accepted JNull (drop 4 (c # r))
          else if take 4 (c # r) = ''true'' then Accepted (JBool True) (drop 4 (c # r))
          else if take 5 (c # r) = ''false'' then Accepted (JBool False) (drop 5 (c # r))
          else (case lex_number (c # r) of None \<Rightarrow> Rejected | Some (lit, r') \<Rightarrow> Accepted (JNumber lit) r'))"
| "parse_elements 0 acc cs = OutOfFuel"
| "parse_elements (Suc n) acc cs =
     (case parse_value n cs of
        OutOfFuel \<Rightarrow> OutOfFuel
      | Rejected \<Rightarrow> Rejected
      | Accepted v r \<Rightarrow>
          if take 1 (skip_ws r) = '','' then parse_elements n (acc @ [v]) (drop 1 (skip_ws r))
          else if take 1 (skip_ws r) = '']'' then Accepted (JArray (acc @ [v])) (drop 1 (skip_ws r))
          else Rejected)"
| "parse_members 0 acc cs = OutOfFuel"
| "parse_members (Suc n) acc cs =
     (if take 1 (skip_ws cs) \<noteq> [CHR 0x22] then Rejected
      else
        (case lex_string [] (drop 1 (skip_ws cs)) of
           None \<Rightarrow> Rejected
         | Some (k, r1) \<Rightarrow>
             if take 1 (skip_ws r1) \<noteq> '':'' then Rejected
             else
               (case parse_value n (drop 1 (skip_ws r1)) of
                  OutOfFuel \<Rightarrow> OutOfFuel
                | Rejected \<Rightarrow> Rejected
                | Accepted v r2 \<Rightarrow>
                    if take 1 (skip_ws r2) = '','' then parse_members n (acc @ [(k, v)]) (drop 1 (skip_ws r2))
                    else if take 1 (skip_ws r2) = ''}'' then Accepted (JObject (acc @ [(k, v)])) (drop 1 (skip_ws r2))
                    else Rejected)))"

text \<open>How a call ends: it returns, it throws, or (for the bounded parser only) the bound
  was reached.\<close>

datatype 'a completion = Returns 'a | Throws exception | Unfinished

definition JSON_parse :: "string \<Rightarrow> JSONValue completion" where
  "JSON_parse t =
     (case parse_value (2 * length t + 2) t of
        OutOfFuel \<Rightarrow> Unfinished
      | Rejected \<Rightarrow> Throws SyntaxError
      | Accepted v r \<Rightarrow> if skip_ws r = [] then Returns v else Throws SyntaxError)"

text \<open>
  The number a literal denotes is rounded to a double, and rounds to zero when it is at
  most \<open>2 ^ -1075\<close>, half the least positive double: with \<open>m\<close> the digits of the
  mantissa read as one integer and \<open>k\<close> the exponent less the number of fraction digits,
  when \<open>m = 0\<close>, or \<open>k < 0\<close> and \<open>m * 2 ^ 1075 \<le> 10 ^ -k\<close>.
\<close>

definition digit_value :: "char \<Rightarrow> nat" where
  "digit_value c = length (takeWhile (\<lambda>d. d \<noteq> c) ''0123456789'')"

definition digits_value :: "string \<Rightarrow> nat" where
  "digits_value ds = foldl (\<lambda>n c. 10 * n + digit_value c) 0 ds"

definition rounds_to_zero :: "string \<Rightarrow> bool" where
  "rounds_to_zero lit =
     (let mantissa = takeWhile (\<lambda>c. c \<noteq> CHR ''e'' \<and> c \<noteq> CHR ''E'') lit;
          exponent = drop (length mantissa + 1) lit;
          fraction = filter is_digit (dropWhile (\<lambda>c. c \<noteq> CHR ''.'') mantissa);
          m = digits_value (filter is_digit mantissa);
          e = (if take 1 exponent = ''-'' then - int (digits_value (filter is_digit exponent))
               else int (digits_value (filter is_digit exponent)));
          k = e - int (length fraction)
      in m = 0 \<or> (k < 0 \<and> m * 2 ^ 1075 \<le> 10 ^ nat (- k)))"

text \<open>Truthiness of a parsed value: \<^verbatim>\<open>null\<close>, \<^verbatim>\<open>false\<close>, zero and the empty string are
  falsy.\<close>

fun truthy :: "JSONValue \<Rightarrow> bool" where
  "truthy JNull = False"
| "truthy (JBool b) = b"
| "truthy (JNumber lit) = (\<not> rounds_to_zero lit)"
| "truthy (JString s) = (s \<noteq> [])"
| "truthy (JArray vs) = True"
| "truthy (JObject ms) = True"

text \<open>
  \<^verbatim>\<open>createCache\<close>. The environment is whether \<^verbatim>\<open>window\<close> is defined and, when
  \<^verbatim>\<open>window.sessionStorage\<close> is truthy, its \<^verbatim>\<open>getItem\<close>. The state of the cache it
  returns is the parsed value itself (the annotation \<^verbatim>\<open>CacheState\<close> is not checked when
  the program runs), or the initial state \<^verbatim>\<open>{ cached: {}, next: {} }\<close>.
\<close>

record Environment =
  has_window :: bool
  sessionStorage :: "(string \<Rightarrow> string option) option"

record LoadedCache =
  loaded_state :: JSONValue
  loaded_set :: set_impl

definition initial_state :: JSONValue where
  "initial_state = JObject [(''cached'', JObject []), (''next'', JObject [])]"

definition createCache :: "Environment \<Rightarrow> LoadedCache completion" where
  "createCache env =
     (case (if \<not> has_window env then None else sessionStorage env) of
        None \<Rightarrow> Returns \<lparr>loaded_state = initial_state, loaded_set = NoopSet\<rparr>
      | Some getItem \<Rightarrow>
          (let item = (case getItem storageKey of
                         None \<Rightarrow> ''null''
                       | Some t \<Rightarrow> if t \<noteq> [] then t else ''null'')
           in case JSON_parse item of
                Throws e \<Rightarrow> Throws e
              | Unfinished \<Rightarrow> Unfinished
              | Returns v \<Rightarrow>
                  Returns \<lparr>loaded_state = (if truthy v then v else initial_state),
                           loaded_set = PersistSet\<rparr>))"

subsection \<open>Example states\<close>

text \<open>
  A small page: \<^verbatim>\<open>html > (head, body > (div, main > ul))\<close>, with the list as the one
  scrollable element, and a browser whose window is scrolled to \<open>(100, 200)\<close> and whose
  list is scrolled to \<open>(30, 40)\<close>.
\<close>

definition example_document :: Node where
  "example_document = Node 0 ''#document'' [] [1] None"

definition example_html :: Node where
  "example_html = Node 1 ''HTML'' ''HTML'' [2, 3] (Some example_document)"

definition example_body :: Node where
  "example_body = Node 3 ''BODY'' ''BODY'' [4, 5] (Some example_html)"

definition example_main :: Node where
  "example_main = Node 5 ''MAIN'' ''MAIN'' [6] (Some example_body)"

definition example_list :: Node where
  "example_list = Node 6 ''UL'' ''UL'' [] (Some example_main)"

definition example_selector :: string where
  "example_selector = ''main:nth-child(2) > ul:nth-child(1)''"

definition example_world :: World where
  "example_world =
     \<lparr>window_defined = True,
      cache = \<lparr>state = \<lparr>cached = [], next = []\<rparr>, set_impl = PersistSet\<rparr>,
      storage_item = None,
      window_scrollX = 100,
      window_scrollY = 200,
      querySelector = (\<lambda>sel. if sel = example_selector then Inr (Some 6) else Inr None),
      scrollLeft = (\<lambda>el. if el = 6 then 30 else 0),
      scrollTop = (\<lambda>el. if el = 6 then 40 else 0),
      dom_node = (\<lambda>el. if el = 3 then example_body else example_list),
      restoration_id = (\<lambda>el. None),
      weakScrolledElements = {},
      calls = []\<rparr>"

definition example_location :: "string \<Rightarrow> Location" where
  "example_location path =
     \<lparr>href = ''https://example.com'' @ path, pathname = path, search = [], hash = [],
      history_state = None\<rparr>"

text \<open>The same browser with a given cache state.\<close>

definition example_world_with :: "CacheValue \<Rightarrow> CacheValue \<Rightarrow> World" where
  "example_world_with c n =
     example_world\<lparr>cache := \<lparr>state = \<lparr>cached = c, next = n\<rparr>, set_impl = PersistSet\<rparr>\<rparr>"

text \<open>The same, in a browser whose \<^verbatim>\<open>querySelector\<close> rejects the selector \<^verbatim>\<open>1\<close> (a type
  selector cannot begin with a digit).\<close>

definition example_world_rejecting :: "CacheValue \<Rightarrow> CacheValue \<Rightarrow> World" where
  "example_world_rejecting c n =
     (example_world_with c n)
       \<lparr>querySelector :=
          (\<lambda>sel. if sel = ''1'' then Inl SyntaxError
                 else if sel = example_selector then Inr (Some 6) else Inr None)\<rparr>"

text \<open>A page with a sidebar tagged \<^verbatim>\<open>data-scroll-restoration-id="sidebar"\<close>, scrolled to
  \<open>(50, 100)\<close> and seen scrolling.\<close>

definition example_sidebar_world :: World where
  "example_sidebar_world =
     example_world
       \<lparr>cache := \<lparr>state = \<lparr>cached = [],
                            next = [(attribute_selector ''sidebar'', \<lparr>scrollX = NaN, scrollY = NaN\<rparr>)]\<rparr>,
                  set_impl = PersistSet\<rparr>,
        querySelector := (\<lambda>sel. if sel = attribute_selector ''sidebar'' then Inr (Some 7) else Inr None),
        scrollLeft := (\<lambda>el. if el = 7 then 50 else 0),
        scrollTop := (\<lambda>el. if el = 7 then 100 else 0),
        restoration_id := (\<lambda>el. if el = 7 then Some ''sidebar'' else None)\<rparr>"

text \<open>The hook mounted on a page: both location variables hold the page's location.\<close>

definition example_system :: "World \<Rightarrow> Location \<Rightarrow> Location \<Rightarrow> System" where
  "example_system w old new =
     \<lparr>world = w, window_location = new, lastLocation = old, locationRef = old,
      animation_frames = [], uncaught = [], trace = []\<rparr>"

definition example_options :: ScrollRestorationOptions where
  "example_options = \<lparr>getKey = Some pathname, scrollBehavior = None, getCurrentLocation = None\<rparr>"

definition example_element_options :: ElementOptions where
  "example_element_options =
     \<lparr>element_id = Some ''sidebar'', getElement = None, element_getKey = Some pathname,
      element_getCurrentLocation = None\<rparr>"

text \<open>A browser with session storage that holds the given item, or none, under the
  storage key.\<close>

definition example_environment :: "string option \<Rightarrow> Environment" where
  "example_environment item =
     \<lparr>has_window = True,
      sessionStorage = Some (\<lambda>k. if k = storageKey then item else None)\<rparr>"

lemmas example_defs = Let_def example_document_def example_html_def example_body_def
  example_main_def example_list_def example_selector_def example_world_def
  example_location_def example_world_with_def example_world_rejecting_def
  example_sidebar_world_def example_system_def example_options_def example_element_options_def

section \<open>Properties\<close>

subsection \<open>The restore loop, without the loop\<close>

lemma restore_step_eq:
  "restore_step K b ce (wr, w) =
     (case entry_error K (querySelector w) ce of
        Some e \<Rightarrow> Inl e
      | None \<Rightarrow>
          Inr (wr \<or> is_window_entry K ce,
               w\<lparr>calls := calls w @ entry_calls K b (querySelector w) ce\<rparr>))"
  by (cases ce)
     (auto simp: restore_step_def is_window_entry_def entry_calls_def entry_error_def
           split: prod.splits option.splits sum.splits)

lemma restore_loop_eq:
  "restore_loop K b cv (wr, w) =
     (loop_outcome K (querySelector w) cv,
      wr \<or> list_ex (is_window_entry K) (reached K (querySelector w) cv),
      w\<lparr>calls := calls w @ concat (map (entry_calls K b (querySelector w))
                                    (reached K (querySelector w) cv))\<rparr>)"
proof (induction cv arbitrary: wr w)
  case Nil
  show ?case by (simp add: loop_outcome_def reached_def)
next
  case (Cons ce cv)
  show ?case
  proof (cases "entry_error K (querySelector w) ce")
    case None
    then show ?thesis
      by (simp add: restore_step_eq Cons.IH loop_outcome_def reached_def)
  next
    case (Some e)
    then show ?thesis
      by (simp add: restore_step_eq loop_outcome_def reached_def)
  qed
qed

lemma completed_reached:
  "loop_outcome K q cv = Completed \<Longrightarrow> reached K q cv = cv"
  by (simp add: loop_outcome_def reached_def split: list.splits)

lemma restore_outcome:
  "window_defined w \<Longrightarrow>
   fst (restoreScrollPositions keyOf b loc w) =
     loop_outcome (keyOf loc) (querySelector w) (cached (state (cache w)))"
  by (simp add: restoreScrollPositions_def restore_loop_eq Let_def split: outcome.splits)

lemma restore_calls:
  "window_defined w \<Longrightarrow>
   calls (snd (restoreScrollPositions keyOf b loc w)) =
     calls w @
     concat (map (entry_calls (keyOf loc) b (querySelector w))
               (reached (keyOf loc) (querySelector w) (cached (state (cache w))))) @
     (if loop_outcome (keyOf loc) (querySelector w) (cached (state (cache w))) = Completed \<and>
         \<not> list_ex (is_window_entry (keyOf loc)) (cached (state (cache w)))
      then [ScrollToXY 0 0] else [])"
proof (cases "loop_outcome (keyOf loc) (querySelector w) (cached (state (cache w)))")
  case Completed
  assume "window_defined w"
  then show ?thesis
    using Completed completed_reached [OF Completed]
    by (simp add: restoreScrollPositions_def restore_loop_eq Let_def cache_set_def
          split: set_impl.splits)
next
  case (Aborted e)
  assume "window_defined w"
  then show ?thesis
    using Aborted by (simp add: restoreScrollPositions_def restore_loop_eq)
qed

lemma restore_next:
  "cache_created w \<Longrightarrow> fst (restoreScrollPositions keyOf b loc w) = Completed \<Longrightarrow>
   next (state (cache (snd (restoreScrollPositions keyOf b loc w)))) = []"
  by (auto simp add: restoreScrollPositions_def restore_loop_eq Let_def cache_set_def
        cache_created_def split: set_impl.splits outcome.splits)

text \<open>
  Claim C10. A restore leaves the committed \<open>cached\<close> map exactly as it was, whatever
  the cache state, the location and the options are, and whether it returns or throws:
  it only reads \<open>cached\<close>.
\<close>

theorem restore_keeps_cached:
  "cached (state (cache (snd (restoreScrollPositions keyOf b loc w)))) = cached (state (cache w))"
  by (simp add: restoreScrollPositions_def restore_loop_eq Let_def cache_set_def
        split: set_impl.splits outcome.splits)


lemma split_go_parts:
  "split_go d part s = p # ps \<Longrightarrow>
   (ps = [] \<and> p = part @ s) \<or> (\<exists>u s'. p = part @ u \<and> s = u @ d @ s' \<and> ps = split_go d [] s')"
proof (induction d part s arbitrary: p ps rule: split_go.induct)
  case (1 sep part)
  then show ?case by simp
next
  case (2 sep part c cs)
  show ?case
  proof (cases "sep \<noteq> [] \<and> take (length sep) (c # cs) = sep")
    case True
    then have "p = part" and "ps = split_go sep [] (drop (length sep) (c # cs))"
      using "2.prems" by simp_all
    moreover have "c # cs = [] @ sep @ drop (length sep) (c # cs)"
      using True append_take_drop_id [of "length sep" "c # cs"] by simp
    ultimately show ?thesis by blast
  next
    case False
    then have "split_go sep (part @ [c]) cs = p # ps"
      using "2.prems" by (simp split: if_splits)
    from "2.IH"(2) [OF False this]
    show ?thesis by (auto simp: Cons_eq_append_conv)
  qed
qed

lemma window_entry_key:
  assumes "is_window_entry K (ck, e)"
  shows "ck = compositeKey K windowKey \<or>
         (\<exists>more. ck = compositeKey K windowKey @ delimiter @ more)"
proof -
  obtain rest where s: "split_go delimiter [] ck = K # windowKey # rest"
    using assms
    by (cases "split_go delimiter [] ck" rule: destructure2.cases)
       (auto simp: is_window_entry_def split_def delimiter_def)
  from split_go_parts [OF s] obtain s1 where
    1: "ck = K @ delimiter @ s1" and 2: "split_go delimiter [] s1 = windowKey # rest"
    by auto
  from split_go_parts [OF 2] have
    "s1 = windowKey \<or> (\<exists>s2. s1 = windowKey @ delimiter @ s2)"
    by auto
  then show ?thesis using 1 by (auto simp: compositeKey_def)
qed

lemma window_entry_saved:
  "is_window_entry K ce \<Longrightarrow>
   fst ce = compositeKey K windowKey \<or> saved_under (compositeKey K windowKey) (fst ce)"
  using window_entry_key [of K "fst ce" "snd ce"] by (auto simp: saved_under_def)

lemma no_window_entry:
  assumes "map_of cv (compositeKey K windowKey) = None"
    and "\<not> list_ex (\<lambda>ce. saved_under (compositeKey K windowKey) (fst ce)) cv"
  shows "\<not> list_ex (is_window_entry K) cv"
proof
  assume "list_ex (is_window_entry K) cv"
  then obtain ce where m: "ce \<in> set cv" and e: "is_window_entry K ce"
    by (auto simp: list_ex_iff)
  from assms(2) m have "\<not> saved_under (compositeKey K windowKey) (fst ce)"
    by (auto simp: list_ex_iff)
  with window_entry_saved [OF e] have "fst ce = compositeKey K windowKey" by simp
  with m have "compositeKey K windowKey \<in> fst ` set cv" by force
  with assms(1) show False by (simp add: map_of_eq_None_iff)
qed

text \<open>
  Claim C3, amended. In a browser, when \<open>cached\<close> has no entry under the composite key
  of the location key and the window key, no \<open>cached\<close> key goes on with the delimiter
  after that composite key (no entry was saved under a location key that is this
  composite key), and the restore returns (\<^verbatim>\<open>querySelector\<close> throws on none of the
  selectors it looks up), the last scroll request the restore issues is
  \<^verbatim>\<open>window.scrollTo(0, 0)\<close>.
\<close>

theorem restore_falls_back_to_origin:
  assumes "window_defined w"
    and "map_of (cached (state (cache w))) (compositeKey (keyOf loc) windowKey) = None"
    and "\<not> list_ex (\<lambda>ce. saved_under (compositeKey (keyOf loc) windowKey) (fst ce))
             (cached (state (cache w)))"
    and "fst (restoreScrollPositions keyOf b loc w) = Completed"
  shows "\<exists>cs. calls (snd (restoreScrollPositions keyOf b loc w)) = calls w @ cs @ [ScrollToXY 0 0]"
  using assms(1,4) no_window_entry [OF assms(2,3)]
  by (simp add: restore_calls restore_outcome)

theorem restore_falls_back_to_origin_witness:
  "window_defined (example_world_with [(''/page1___window'', \<lparr>scrollX = Num 100, scrollY = Num 200\<rparr>)] []) \<and>
   map_of (cached (state (cache (example_world_with
           [(''/page1___window'', \<lparr>scrollX = Num 100, scrollY = Num 200\<rparr>)] []))))
     (compositeKey (pathname (example_location ''/page2'')) windowKey) = None \<and>
   \<not> list_ex (\<lambda>ce. saved_under (compositeKey (pathname (example_location ''/page2'')) windowKey) (fst ce))
        (cached (state (cache (example_world_with
           [(''/page1___window'', \<lparr>scrollX = Num 100, scrollY = Num 200\<rparr>)] [])))) \<and>
   fst (restoreScrollPositions pathname None (example_location ''/page2'')
          (example_world_with [(''/page1___window'', \<lparr>scrollX = Num 100, scrollY = Num 200\<rparr>)] []))
     = Completed \<and>
   (\<exists>cs. calls (snd (restoreScrollPositions pathname None (example_location ''/page2'')
            (example_world_with [(''/page1___window'', \<lparr>scrollX = Num 100, scrollY = Num 200\<rparr>)] []))) =
          calls (example_world_with [(''/page1___window'', \<lparr>scrollX = Num 100, scrollY = Num 200\<rparr>)] [])
            @ cs @ [ScrollToXY 0 0])"
proof -
  have c: "fst (restoreScrollPositions pathname None (example_location ''/page2'')
          (example_world_with [(''/page1___window'', \<lparr>scrollX = Num 100, scrollY = Num 200\<rparr>)] []))
     = Completed"
    by (simp add: restore_outcome loop_outcome_def entry_error_def example_defs split_def
          delimiter_def windowKey_def)
  show ?thesis
    using c restore_falls_back_to_origin
          [of "example_world_with [(''/page1___window'', \<lparr>scrollX = Num 100, scrollY = Num 200\<rparr>)] []"
              pathname "example_location ''/page2''" None]
    by (simp add: example_defs saved_under_def compositeKey_def delimiter_def windowKey_def)
qed

text \<open>
  Claim C3 as stated fails in two ways. Offsets of the list saved under the location key
  \<^verbatim>\<open>/p___window\<close> are no window entry of \<^verbatim>\<open>/p\<close> (nothing is cached under the composite
  key of \<^verbatim>\<open>/p\<close> and the window key), yet a restore for \<^verbatim>\<open>/p\<close> reads them as one and
  does not scroll to the origin. And with a cached key that splits into \<^verbatim>\<open>/p\<close>
  and the selector \<^verbatim>\<open>1\<close>, \<^verbatim>\<open>querySelector\<close> throws and the restore issues no scroll
  request at all.
\<close>

theorem restore_no_fallback_counterexample:
  "map_of (cached (state (cache (snd (saveScrollPositions pathname (example_location ''/p___window'')
      (onScroll (ElementTarget 6) example_world)))))) (compositeKey ''/p'' windowKey) = None \<and>
   calls (snd (restoreScrollPositions pathname None (example_location ''/p'')
      (snd (saveScrollPositions pathname (example_location ''/p___window'')
         (onScroll (ElementTarget 6) example_world))))) =
     [ScrollToOptions (Num 40) (Num 30) None] \<and>
   restoreScrollPositions pathname None (example_location ''/p'')
      (example_world_rejecting [(''/p___1___window'', \<lparr>scrollX = Num 5, scrollY = Num 6\<rparr>)] []) =
     (Aborted SyntaxError,
      example_world_rejecting [(''/p___1___window'', \<lparr>scrollX = Num 5, scrollY = Num 6\<rparr>)] []) \<and>
   calls (example_world_rejecting [(''/p___1___window'', \<lparr>scrollX = Num 5, scrollY = Num 6\<rparr>)] []) = []"
  by (simp add: example_defs onScroll_def target_selector_def getCssSelector_def toLowerCase_def
        toLowerCase_char_def int_text_def decimal.simps digit_char_def
        cache_set_def saveScrollPositions_def save_step_def read_offsets_def windowKey_def
        compositeKey_def delimiter_def restoreScrollPositions_def restore_step_def split_def)

subsection \<open>What createCache establishes is kept\<close>

lemma cache_set_created: "cache_created w \<Longrightarrow> cache_created (cache_set u w)"
  by (auto simp: cache_created_def cache_set_def Let_def split: set_impl.splits)

lemma onScroll_created: "cache_created w \<Longrightarrow> cache_created (onScroll t w)"
proof -
  assume a: "cache_created w"
  have b: "cache_created (w\<lparr>weakScrolledElements := insert t (weakScrolledElements w)\<rparr>)"
    using a by (simp add: cache_created_def)
  show ?thesis
    unfolding onScroll_def Let_def using a b by (simp add: cache_set_created)
qed

lemma onScroll_all_created: "cache_created w \<Longrightarrow> cache_created (onScroll_all ts w)"
  by (induction ts arbitrary: w) (simp_all add: onScroll_created)

lemma save_step_created:
  "cache_created w \<Longrightarrow> save_step K sel w = Inr w' \<Longrightarrow> cache_created w'"
  by (auto simp: save_step_def cache_created_def cache_set_def Let_def
        split: option.splits set_impl.splits sum.splits)

lemma save_loop_created: "cache_created w \<Longrightarrow> cache_created (snd (save_loop K sels w))"
proof (induction sels arbitrary: w)
  case Nil
  then show ?case by simp
next
  case (Cons s sels)
  show ?case
  proof (cases "save_step K s w")
    case (Inl e)
    then show ?thesis using Cons.prems by simp
  next
    case (Inr w')
    then show ?thesis
      using Cons.IH [OF save_step_created [OF Cons.prems Inr]] by simp
  qed
qed

lemma save_created:
  "cache_created w \<Longrightarrow> cache_created (snd (saveScrollPositions keyOf loc w))"
  by (simp add: saveScrollPositions_def save_loop_created)

text \<open>
  Claim C7, amended. After a cycle of scroll events, a save, more scroll events and a
  restore that returns (\<^verbatim>\<open>querySelector\<close> throws on none of the selectors it looks up),
  the pending map \<open>next\<close> is empty, for every cache that \<^verbatim>\<open>createCache\<close> can have made.
\<close>

theorem next_empty_after_cycle:
  assumes "cache_created w"
    and "fst (restoreScrollPositions keyOf b loc2
           (onScroll_all ts2 (snd (saveScrollPositions keyOf loc1 (onScroll_all ts1 w))))) = Completed"
  shows "next (state (cache (snd (restoreScrollPositions keyOf b loc2
           (onScroll_all ts2 (snd (saveScrollPositions keyOf loc1 (onScroll_all ts1 w)))))))) = []"
  by (intro restore_next onScroll_all_created save_created assms)

theorem next_empty_after_cycle_witness:
  "cache_created example_world \<and>
   fst (restoreScrollPositions pathname None (example_location ''/page2'')
           (onScroll_all [ElementTarget 6] (snd (saveScrollPositions pathname (example_location ''/page1'')
              (onScroll_all [WindowTarget, ElementTarget 6] example_world))))) = Completed \<and>
   next (state (cache (snd (restoreScrollPositions pathname None (example_location ''/page2'')
           (onScroll_all [ElementTarget 6] (snd (saveScrollPositions pathname (example_location ''/page1'')
              (onScroll_all [WindowTarget, ElementTarget 6] example_world)))))))) = []"
proof -
  have c: "fst (restoreScrollPositions pathname None (example_location ''/page2'')
           (onScroll_all [ElementTarget 6] (snd (saveScrollPositions pathname (example_location ''/page1'')
              (onScroll_all [WindowTarget, ElementTarget 6] example_world))))) = Completed"
    by (simp add: example_defs onScroll_def target_selector_def getCssSelector_def toLowerCase_def
        toLowerCase_char_def int_text_def decimal.simps digit_char_def
        cache_set_def saveScrollPositions_def save_step_def read_offsets_def windowKey_def
        compositeKey_def delimiter_def restoreScrollPositions_def restore_step_def split_def)
  have i: "cache_created example_world"
    by (simp add: cache_created_def example_world_def)
  show ?thesis
    using i c next_empty_after_cycle [OF i c] by simp
qed

text \<open>
  Claim C7 as stated fails when the restore throws: with a cached key that splits into
  \<^verbatim>\<open>/p\<close> and the selector \<^verbatim>\<open>1\<close>, the restore for \<^verbatim>\<open>/p\<close> stops at
  \<^verbatim>\<open>querySelector\<close>, and the list that scrolled after the save stays in \<open>next\<close>.
\<close>

theorem next_kept_counterexample:
  "cache_created (example_world_rejecting [(''/p___1___window'', \<lparr>scrollX = Num 5, scrollY = Num 6\<rparr>)] []) \<and>
   restoreScrollPositions pathname None (example_location ''/p'')
      (onScroll_all [ElementTarget 6] (snd (saveScrollPositions pathname (example_location ''/q'')
         (onScroll_all [] (example_world_rejecting
            [(''/p___1___window'', \<lparr>scrollX = Num 5, scrollY = Num 6\<rparr>)] []))))) =
     (Aborted SyntaxError,
      onScroll (ElementTarget 6)
        (example_world_rejecting [(''/p___1___window'', \<lparr>scrollX = Num 5, scrollY = Num 6\<rparr>)] [])) \<and>
   next (state (cache (onScroll (ElementTarget 6)
        (example_world_rejecting [(''/p___1___window'', \<lparr>scrollX = Num 5, scrollY = Num 6\<rparr>)] [])))) =
     [(''main:nth-child(2) > ul:nth-child(1)'', \<lparr>scrollX = NaN, scrollY = NaN\<rparr>)]"
  by (simp add: example_defs onScroll_def target_selector_def getCssSelector_def toLowerCase_def
        toLowerCase_char_def int_text_def decimal.simps digit_char_def cache_created_def
        cache_set_def saveScrollPositions_def save_step_def read_offsets_def windowKey_def
        compositeKey_def delimiter_def restoreScrollPositions_def restore_step_def split_def)

subsection \<open>The save loop\<close>

lemma or0_Num: "or0 (Num r) = Num r"
  by simp



lemma save_step_frame:
  assumes "save_step K s w = Inr w'"
  shows "window_defined w' = window_defined w"
    and "set_impl (cache w') = set_impl (cache w)"
    and "window_scrollX w' = window_scrollX w"
    and "window_scrollY w' = window_scrollY w"
    and "querySelector w' = querySelector w"
    and "scrollLeft w' = scrollLeft w"
    and "scrollTop w' = scrollTop w"
    and "calls w' = calls w"
  using assms
  by (auto simp add: save_step_def cache_set_def Let_def
        split: option.splits set_impl.splits sum.splits)





lemma save_loop_frame:
  "window_defined (snd (save_loop K sels w)) = window_defined w"
  "set_impl (cache (snd (save_loop K sels w))) = set_impl (cache w)"
  "querySelector (snd (save_loop K sels w)) = querySelector w"
  "calls (snd (save_loop K sels w)) = calls w"
proof (induction sels arbitrary: w)
  case Nil
  {
    case 1 show ?case by simp
  next
    case 2 show ?case by simp
  next
    case 3 show ?case by simp
  next
    case 4 show ?case by simp
  }
next
  case (Cons s sels)
  {
    case 1 show ?case
      by (cases "save_step K s w") (simp_all add: Cons.IH save_step_frame)
  next
    case 2 show ?case
      by (cases "save_step K s w") (simp_all add: Cons.IH save_step_frame)
  next
    case 3 show ?case
      by (cases "save_step K s w") (simp_all add: Cons.IH save_step_frame)
  next
    case 4 show ?case
      by (cases "save_step K s w") (simp_all add: Cons.IH save_step_frame)
  }
qed






lemma save_frame:
  "window_defined (snd (saveScrollPositions keyOf loc w)) = window_defined w"
  "set_impl (cache (snd (saveScrollPositions keyOf loc w))) = set_impl (cache w)"
  "querySelector (snd (saveScrollPositions keyOf loc w)) = querySelector w"
  "calls (snd (saveScrollPositions keyOf loc w)) = calls w"
  by (simp_all add: saveScrollPositions_def save_loop_frame)


text \<open>When \<^verbatim>\<open>querySelector\<close> rejects the first pending selector, the save throws and
  changes nothing.\<close>

lemma save_stops_at_rejected:
  assumes "window_defined w" and "next (state (cache w)) = (bad, entry0) # rest"
    and "bad \<noteq> windowKey" and "bad \<noteq> []" and "querySelector w bad = Inl e"
  shows "saveScrollPositions keyOf loc w = (Aborted e, w)"
  using assms by (simp add: saveScrollPositions_def save_step_def read_offsets_def)




subsection \<open>Round trip\<close>






subsection \<open>Keys of other locations\<close>

lemma take_within: "n \<le> length xs \<Longrightarrow> take n (xs @ ys) = take n xs"
  by simp

lemma split_go_key:
  "splits_back A \<Longrightarrow>
   split_go delimiter part (A @ delimiter @ rest) = (part @ A) # split_go delimiter [] rest"
proof (induction A arbitrary: part)
  case Nil
  show ?case by (simp add: delimiter_def)
next
  case (Cons c cs)
  have "take (length delimiter) ((c # cs @ delimiter) @ rest) =
        take (length delimiter) (c # cs @ delimiter)"
    by (rule take_within) simp
  then have "take (length delimiter) (c # cs @ delimiter @ rest) =
             take (length delimiter) (c # cs @ delimiter)"
    by simp
  then have "take (length delimiter) (c # cs @ delimiter @ rest) \<noteq> delimiter"
    using Cons.prems by simp
  moreover have "splits_back cs" using Cons.prems by simp
  ultimately show ?case using Cons.IH [of "part @ [c]"] by simp
qed

lemma split_go_nonempty: "split_go sep part s \<noteq> []"
  by (induction sep part s rule: split_go.induct) auto

lemma saved_under_key:
  assumes "splits_back A" and "saved_under A ck"
  shows "fst (destructure2 (split ck delimiter)) = Some A"
proof -
  have "ck = A @ delimiter @ drop (length A + length delimiter) ck"
    using assms(2) append_take_drop_id [of "length A + length delimiter" ck]
    by (simp add: saved_under_def)
  then obtain rest where ck: "ck = A @ delimiter @ rest" ..
  obtain p ps where "split_go delimiter [] rest = p # ps"
    using split_go_nonempty [of delimiter "[]" rest] by (cases "split_go delimiter [] rest") auto
  then show ?thesis
    using split_go_key [OF assms(1), of "[]" rest] ck
    by (simp add: split_def delimiter_def)
qed

lemma other_key_no_calls:
  assumes "splits_back A" and "saved_under A (fst ce)" and "K \<noteq> A"
  shows "entry_calls K b q ce = []" and "\<not> is_window_entry K ce" and "entry_error K q ce = None"
  using saved_under_key [OF assms(1,2)] assms(3)
  by (auto simp: entry_calls_def is_window_entry_def entry_error_def split: prod.splits)

lemma concat_map_filter_irrelevant:
  "(\<And>x. x \<in> set xs \<Longrightarrow> \<not> P x \<Longrightarrow> f x = []) \<Longrightarrow>
   concat (map f (filter P xs)) = concat (map f xs)"
  by (induction xs) auto

lemma list_ex_filter_irrelevant:
  "(\<And>x. x \<in> set xs \<Longrightarrow> \<not> P x \<Longrightarrow> \<not> Q x) \<Longrightarrow> list_ex Q (filter P xs) = list_ex Q xs"
  by (induction xs) auto

lemma takeWhile_filter_irrelevant:
  "(\<And>x. x \<in> set xs \<Longrightarrow> \<not> P x \<Longrightarrow> Q x) \<Longrightarrow>
   takeWhile Q (filter P xs) = filter P (takeWhile Q xs)"
  by (induction xs) auto

lemma dropWhile_filter_irrelevant:
  "(\<And>x. x \<in> set xs \<Longrightarrow> \<not> P x \<Longrightarrow> Q x) \<Longrightarrow>
   dropWhile Q (filter P xs) = filter P (dropWhile Q xs)"
  by (induction xs) auto

lemma dropWhile_head: "dropWhile Q xs = y # ys \<Longrightarrow> \<not> Q y \<and> y \<in> set xs"
  by (induction xs) (auto split: if_splits)

lemma loop_outcome_filter_irrelevant:
  assumes "\<And>x. x \<in> set cv \<Longrightarrow> \<not> P x \<Longrightarrow> entry_error K q x = None"
  shows "loop_outcome K q (filter P cv) = loop_outcome K q cv"
proof -
  have d: "dropWhile (\<lambda>ce. entry_error K q ce = None) (filter P cv) =
           filter P (dropWhile (\<lambda>ce. entry_error K q ce = None) cv)"
    using assms by (rule dropWhile_filter_irrelevant)
  show ?thesis
  proof (cases "dropWhile (\<lambda>ce. entry_error K q ce = None) cv")
    case Nil
    show ?thesis unfolding loop_outcome_def d Nil by simp
  next
    case (Cons y ys)
    have "P y"
    proof (rule ccontr)
      assume "\<not> P y"
      with dropWhile_head [OF Cons] assms [of y] show False by simp
    qed
    then show ?thesis unfolding loop_outcome_def d Cons by simp
  qed
qed

lemma reached_filter_irrelevant:
  assumes "\<And>x. x \<in> set cv \<Longrightarrow> \<not> P x \<Longrightarrow> entry_error K q x = None"
  shows "reached K q (filter P cv) = filter P (reached K q cv)"
  using takeWhile_filter_irrelevant [of cv P "\<lambda>ce. entry_error K q ce = None"] assms
  by (simp add: reached_def)

lemma no_underscore_splits_back: "CHR ''_'' \<notin> set A \<Longrightarrow> splits_back A"
  by (induction A) (auto simp: delimiter_def)

text \<open>
  Claim C4, amended. Let \<open>A\<close> be a location key that splits back (the delimiter does not
  begin inside it; every key without an underscore is one). A restore for any other
  location key issues exactly the scroll requests it would issue if every entry saved
  under \<open>A\<close> were absent from \<open>cached\<close>, and returns or throws as it would then: it
  applies none of them.
\<close>

theorem restore_ignores_other_keys:
  assumes "splits_back A" and "keyOf loc \<noteq> A"
  shows "calls (snd (restoreScrollPositions keyOf b loc w)) =
         calls (snd (restoreScrollPositions keyOf b loc
                  (w\<lparr>cache := (cache w)\<lparr>state := (state (cache w))
                       \<lparr>cached := filter (\<lambda>ce. \<not> saved_under A (fst ce)) (cached (state (cache w)))\<rparr>\<rparr>\<rparr>)))
       \<and> fst (restoreScrollPositions keyOf b loc w) =
         fst (restoreScrollPositions keyOf b loc
                  (w\<lparr>cache := (cache w)\<lparr>state := (state (cache w))
                       \<lparr>cached := filter (\<lambda>ce. \<not> saved_under A (fst ce)) (cached (state (cache w)))\<rparr>\<rparr>\<rparr>))"
proof (cases "window_defined w")
  case False
  then show ?thesis by (simp add: restoreScrollPositions_def)
next
  case True
  let ?P = "\<lambda>ce. \<not> saved_under A (fst ce)"
  let ?cv = "cached (state (cache w))"
  let ?K = "keyOf loc" and ?q = "querySelector w"
  have r: "reached ?K ?q (filter ?P ?cv) = filter ?P (reached ?K ?q ?cv)"
    by (rule reached_filter_irrelevant) (simp add: other_key_no_calls [OF assms(1) _ assms(2)])
  have o: "loop_outcome ?K ?q (filter ?P ?cv) = loop_outcome ?K ?q ?cv"
    by (rule loop_outcome_filter_irrelevant) (simp add: other_key_no_calls [OF assms(1) _ assms(2)])
  have c: "concat (map (entry_calls ?K b ?q) (filter ?P (reached ?K ?q ?cv))) =
           concat (map (entry_calls ?K b ?q) (reached ?K ?q ?cv))"
    by (rule concat_map_filter_irrelevant) (simp add: other_key_no_calls [OF assms(1) _ assms(2)])
  have e: "list_ex (is_window_entry ?K) (filter ?P ?cv) = list_ex (is_window_entry ?K) ?cv"
    by (rule list_ex_filter_irrelevant) (simp add: other_key_no_calls [OF assms(1) _ assms(2)])
  show ?thesis using True by (simp add: restore_calls restore_outcome r o c e)
qed

theorem restore_ignores_other_keys_witness:
  "splits_back ''/a'' \<and> pathname (example_location ''/b'') \<noteq> ''/a'' \<and>
   calls (snd (restoreScrollPositions pathname None (example_location ''/b'')
            (example_world_with [(''/a___window'', \<lparr>scrollX = Num 100, scrollY = Num 200\<rparr>)] []))) =
   calls (snd (restoreScrollPositions pathname None (example_location ''/b'')
            (example_world_with [] []))) \<and>
   fst (restoreScrollPositions pathname None (example_location ''/b'')
            (example_world_with [(''/a___window'', \<lparr>scrollX = Num 100, scrollY = Num 200\<rparr>)] [])) =
   fst (restoreScrollPositions pathname None (example_location ''/b'')
            (example_world_with [] []))"
  using restore_ignores_other_keys
    [of "''/a''" pathname "example_location ''/b''" None
        "example_world_with [(''/a___window'', \<lparr>scrollX = Num 100, scrollY = Num 200\<rparr>)] []"]
  by (simp add: example_world_with_def example_world_def example_location_def delimiter_def
        saved_under_def)

text \<open>
  Claim C4 as stated fails when a location key contains the delimiter: the offsets of the
  list, saved under \<^verbatim>\<open>/b___window\<close>, are applied to the window by a restore for \<^verbatim>\<open>/b\<close>.
\<close>

theorem restore_other_key_counterexample:
  "cached (state (cache (snd (saveScrollPositions pathname (example_location ''/b___window'')
      (onScroll (ElementTarget 6) example_world))))) =
     [(''/b___window___main:nth-child(2) > ul:nth-child(1)'', \<lparr>scrollX = Num 30, scrollY = Num 40\<rparr>)] \<and>
   restoreScrollPositions pathname None (example_location ''/b'')
      (snd (saveScrollPositions pathname (example_location ''/b___window'')
         (onScroll (ElementTarget 6) example_world))) =
     (Completed,
      (snd (saveScrollPositions pathname (example_location ''/b___window'')
         (onScroll (ElementTarget 6) example_world)))
        \<lparr>weakScrolledElements := {}, calls := [ScrollToOptions (Num 40) (Num 30) None]\<rparr>)"
  by (simp add: example_defs onScroll_def target_selector_def getCssSelector_def toLowerCase_def
        toLowerCase_char_def int_text_def decimal.simps digit_char_def
        cache_set_def saveScrollPositions_def save_step_def read_offsets_def windowKey_def
        compositeKey_def delimiter_def restoreScrollPositions_def restore_step_def split_def)

subsection \<open>The selector helper\<close>

lemma indexOf_position:
  "i \<in> set xs \<Longrightarrow> indexOf xs i + 1 = int (position_among xs i)"
proof (induction xs)
  case Nil
  then show ?case by simp
next
  case (Cons y ys)
  show ?case
  proof (cases "y = i")
    case True
    then show ?thesis by (simp add: position_among_def)
  next
    case False
    then have "i \<in> set ys" using Cons.prems by simp
    then have "indexOf ys i + 1 = int (position_among ys i)" by (rule Cons.IH)
    then show ?thesis using False by (simp add: position_among_def Let_def)
  qed
qed

lemma first_index:
  "i \<in> set xs \<Longrightarrow>
   length (takeWhile (\<lambda>j. j \<noteq> i) xs) < length xs \<and>
   xs ! length (takeWhile (\<lambda>j. j \<noteq> i) xs) = i \<and>
   (\<forall>k < length (takeWhile (\<lambda>j. j \<noteq> i) xs). xs ! k \<noteq> i)"
  by (induction xs) (auto simp: nth_Cons split: nat.splits)

lemma position_among_nth:
  "i \<in> set xs \<Longrightarrow>
   1 \<le> position_among xs i \<and> position_among xs i \<le> length xs \<and>
   xs ! (position_among xs i - 1) = i \<and> (\<forall>k < position_among xs i - 1. xs ! k \<noteq> i)"
  using first_index [of i xs] by (simp add: position_among_def)

lemma loop_levels:
  "child_of_parent n \<Longrightarrow>
   getCssSelector_loop path n = map level_text (selector_levels n) @ path"
proof (induction path n rule: getCssSelector_loop.induct)
  case (1 path i nn tn ch)
  show ?case by simp
next
  case (2 path i nn tn ch parent)
  show ?case
  proof (cases "nodeName parent = ''HTML''")
    case True
    then show ?thesis by simp
  next
    case False
    have c: "i \<in> set (children parent)" and p: "child_of_parent parent"
      using "2.prems" by simp_all
    have t: "int_text (indexOf (children parent) i + 1) = decimal (position_among (children parent) i)"
      by (simp add: indexOf_position [OF c] int_text_def)
    show ?thesis
      using False "2.IH" [OF False p] by (simp add: t level_text_def)
  qed
qed

text \<open>
  Claim C9, amended. For every element of a DOM tree (each node on the way up being one
  of its parent's children), \<^verbatim>\<open>getCssSelector\<close> returns the lowercased join, with the
  separator \<^verbatim>\<open> > \<close>, of the levels \<^verbatim>\<open>tagName:nth-child(index)\<close> from the outermost one to
  the element, where index is the 1-based position of the node among its parent's
  children (\<open>position_among_nth\<close>). The walk goes up through the parent nodes and stops
  at the first node whose parent is missing or is named \<^verbatim>\<open>HTML\<close>; a level is recorded
  for each node before that one and none for that one. So the node just below the root
  (\<^verbatim>\<open>body\<close>) has no level, and the root element itself, whose parent is the document,
  has one. The result is a function of the node and its ancestors alone.
\<close>

theorem getCssSelector_levels:
  assumes "child_of_parent el"
  shows "getCssSelector el = toLowerCase (join (map level_text (selector_levels el)) '' > '')"
  using loop_levels [OF assms, of "[]"] by (simp add: getCssSelector_def)

theorem getCssSelector_levels_witness:
  "child_of_parent example_list \<and>
   getCssSelector example_list = ''main:nth-child(2) > ul:nth-child(1)''"
  using getCssSelector_levels [of example_list]
  by (simp add: example_defs toLowerCase_def toLowerCase_char_def level_text_def
        position_among_def decimal.simps digit_char_def)

text \<open>
  Claim C9 as stated fails: the walk does not go up to the document root and leave only
  the root out. For the list of the example page the levels up to but excluding the root
  begin with the one of \<^verbatim>\<open>body\<close>, which the code does not record; and for the root
  element, which would have no level, the code records one.
\<close>

theorem getCssSelector_root_counterexample:
  "getCssSelector example_list = ''main:nth-child(2) > ul:nth-child(1)'' \<and>
   toLowerCase (join (map level_text (claimed_levels example_list)) '' > '') =
     ''body:nth-child(2) > main:nth-child(2) > ul:nth-child(1)'' \<and>
   getCssSelector example_html = ''html:nth-child(1)'' \<and>
   toLowerCase (join (map level_text (claimed_levels example_html)) '' > '') = []"
  by (simp add: example_defs getCssSelector_def toLowerCase_def toLowerCase_char_def
        level_text_def position_among_def int_text_def decimal.simps digit_char_def)

subsection \<open>The navigation listener\<close>

lemma handleScrollSave_eq:
  "handleScrollSave options s =
     s\<lparr>world := snd (saveScrollPositions (the_getKey options) (locationRef s) (world s)),
       uncaught := uncaught s @
         reported (fst (saveScrollPositions (the_getKey options) (locationRef s) (world s)))\<rparr>"
  by (simp add: handleScrollSave_def case_prod_beta)

lemma run_frame_trace:
  "trace (run_frame options s) =
     (case animation_frames s of
        [] \<Rightarrow> trace s
      | OuterFrame # rest \<Rightarrow> trace s @ [AnimationFrameRequested InnerFrame]
      | InnerFrame # rest \<Rightarrow> trace s @ [Restored (locationRef s)])"
  "animation_frames (run_frame options s) =
     (case animation_frames s of
        [] \<Rightarrow> []
      | OuterFrame # rest \<Rightarrow> rest @ [InnerFrame]
      | InnerFrame # rest \<Rightarrow> rest)"
  "locationRef (run_frame options s) = locationRef s"
  by (simp_all add: run_frame_def case_prod_beta split: list.splits frame_callback.splits)

text \<open>
  Claim C6. In a browser (the listener installs \<^verbatim>\<open>checkForUrlChange\<close> only there), when
  the location \<^verbatim>\<open>checkForUrlChange\<close> reads differs from
  \<^verbatim>\<open>lastLocation\<close> in pathname, search or hash, these happen in this order: the save
  event is dispatched while \<^verbatim>\<open>lastLocation\<close> is still the old location (and the save runs,
  for the location the hook holds; an exception it throws is reported and stops nothing
  that follows); \<^verbatim>\<open>lastLocation\<close> becomes the new location; the navigate
  callback is called with the old location; and only then is an animation frame requested
  for the restore, which has issued no scroll request yet and runs in the second frame,
  for the location the callback stored.
\<close>

theorem url_change_order:
  assumes "window_defined (world s)"
    and "pathname (window_location s) \<noteq> pathname (lastLocation s)
         \<or> search (window_location s) \<noteq> search (lastLocation s)
         \<or> hash (window_location s) \<noteq> hash (lastLocation s)"
  shows "(let s' = checkForUrlChange options (handleNavigation options) s
          in trace s' = trace s @
               [SaveEventDispatched (lastLocation s),
                NavigateCallback (lastLocation s) (window_location s),
                AnimationFrameRequested OuterFrame]
           \<and> lastLocation s' = window_location s
           \<and> world s' = snd (saveScrollPositions (the_getKey options) (locationRef s) (world s))
           \<and> uncaught s' = uncaught s @
                reported (fst (saveScrollPositions (the_getKey options) (locationRef s) (world s)))
           \<and> calls (world s') = calls (world s)
           \<and> animation_frames s' = animation_frames s @ [OuterFrame]
           \<and> (getCurrentLocation options = None \<longrightarrow> locationRef s' = window_location s)
           \<and> (animation_frames s = [] \<longrightarrow>
                trace (run_frame options (run_frame options s')) =
                  trace s' @ [AnimationFrameRequested InnerFrame, Restored (locationRef s')]))"
proof -
  have w: "window_defined (snd (saveScrollPositions (the_getKey options) (locationRef s) (world s)))"
          "calls (snd (saveScrollPositions (the_getKey options) (locationRef s) (world s))) = calls (world s)"
    using assms(1) by (simp_all add: save_frame)
  show ?thesis
    using assms w
    by (simp add: checkForUrlChange_def defaultGetCurrentLocation_def saveCurrentScrollPositions_def
          handleScrollSave_eq handleNavigation_def run_frame_trace the_getCurrentLocation_def Let_def)
qed

theorem url_change_order_witness:
  "window_defined (world (example_system example_world (example_location ''/page1'') (example_location ''/page2''))) \<and>
   (pathname (window_location (example_system example_world (example_location ''/page1'') (example_location ''/page2'')))
      \<noteq> pathname (lastLocation (example_system example_world (example_location ''/page1'') (example_location ''/page2'')))) \<and>
   trace (checkForUrlChange example_options (handleNavigation example_options)
            (example_system example_world (example_location ''/page1'') (example_location ''/page2''))) =
     [SaveEventDispatched (example_location ''/page1''),
      NavigateCallback (example_location ''/page1'') (example_location ''/page2''),
      AnimationFrameRequested OuterFrame] \<and>
   lastLocation (checkForUrlChange example_options (handleNavigation example_options)
            (example_system example_world (example_location ''/page1'') (example_location ''/page2''))) =
     example_location ''/page2''"
  using url_change_order
    [of "example_system example_world (example_location ''/page1'') (example_location ''/page2'')"
        example_options]
  by (simp add: Let_def example_system_def example_world_def example_location_def)

subsection \<open>The element query\<close>




subsection \<open>The parser consumes input and finishes\<close>

lemma skip_ws_length: "length (skip_ws cs) \<le> length cs"
  by (simp add: skip_ws_def length_dropWhile_le)

lemma lex_string_shorter: "lex_string acc cs = Some (s, r) \<Longrightarrow> length r < length cs"
proof (induction acc cs rule: lex_string.induct)
  case (1 acc)
  then show ?case by simp
next
  case (2 acc c cs)
  show ?case
  proof (cases "c = CHR 0x22")
    case True
    then show ?thesis using "2.prems" by simp
  next
    case q: False
    show ?thesis
    proof (cases "c = CHR 0x5C")
      case False
      then have "lex_string (acc @ [c]) cs = Some (s, r)" and "\<not> is_control c"
        using q "2.prems" by (simp_all split: if_splits)
      then have "length r < length cs" using "2.IH"(3) q False by simp
      then show ?thesis by simp
    next
      case True
      then obtain e cs' where cs: "cs = e # cs'"
        using q "2.prems" by (cases cs) simp_all
      show ?thesis
      proof (cases "is_escape e")
        case e: True
        then have "lex_string (acc @ [c, e]) cs' = Some (s, r)"
          using q True cs "2.prems" by simp
        then have "length r < length cs'" using "2.IH"(1) q True cs e by simp
        then show ?thesis using cs by simp
      next
        case e: False
        then have u: "e = CHR ''u'' \<and> length (take 4 cs') = 4 \<and> list_all is_hex (take 4 cs')"
          and l: "lex_string (acc @ [c, e] @ take 4 cs') (drop 4 cs') = Some (s, r)"
          using q True cs "2.prems" by (simp_all split: if_splits)
        then have "length r < length (drop 4 cs')" using "2.IH"(2) q True cs e by simp
        then show ?thesis using cs by simp
      qed
    qed
  qed
qed

lemma dropWhile_shorter:
  "takeWhile P xs \<noteq> [] \<Longrightarrow> length (dropWhile P xs) < length xs"
proof -
  assume n: "takeWhile P xs \<noteq> []"
  have "length (takeWhile P xs @ dropWhile P xs) = length xs" by simp
  then have "length (takeWhile P xs) + length (dropWhile P xs) = length xs"
    by (simp only: length_append)
  moreover have "0 < length (takeWhile P xs)" using n by simp
  ultimately show ?thesis by linarith
qed

lemma lex_integer_shorter: "lex_integer cs = Some (i, r) \<Longrightarrow> length r < length cs"
proof -
  assume a: "lex_integer cs = Some (i, r)"
  let ?r = "if take 1 cs = ''-'' then drop 1 cs else cs"
  have n: "takeWhile is_digit ?r \<noteq> []" and r: "r = dropWhile is_digit ?r"
    using a by (auto simp: lex_integer_def Let_def split: if_splits)
  have "length (dropWhile is_digit ?r) < length ?r" using n by (rule dropWhile_shorter)
  moreover have "length ?r \<le> length cs" by simp
  ultimately show ?thesis using r by simp
qed

lemma lex_fraction_shorter: "lex_fraction cs = Some (f, r) \<Longrightarrow> length r \<le> length cs"
proof -
  assume a: "lex_fraction cs = Some (f, r)"
  have "length (dropWhile is_digit (drop 1 cs)) \<le> length (drop 1 cs)"
    by (rule length_dropWhile_le)
  then show ?thesis
    using a by (auto simp: lex_fraction_def Let_def split: if_splits)
qed

lemma lex_exponent_shorter: "lex_exponent cs = Some (e, r) \<Longrightarrow> length r \<le> length cs"
proof -
  assume a: "lex_exponent cs = Some (e, r)"
  have "\<And>k. length (dropWhile is_digit (drop k (drop 1 cs))) \<le> length cs"
  proof -
    fix k
    have "length (dropWhile is_digit (drop k (drop 1 cs))) \<le> length (drop k (drop 1 cs))"
      by (rule length_dropWhile_le)
    then show "length (dropWhile is_digit (drop k (drop 1 cs))) \<le> length cs" by simp
  qed
  then show ?thesis
    using a by (auto simp: lex_exponent_def Let_def split: if_splits)
qed

lemma lex_number_shorter: "lex_number cs = Some (l, r) \<Longrightarrow> length r < length cs"
proof -
  assume a: "lex_number cs = Some (l, r)"
  obtain i r1 where i: "lex_integer cs = Some (i, r1)"
    using a by (auto simp: lex_number_def split: option.splits)
  obtain f r2 where f: "lex_fraction r1 = Some (f, r2)"
    using a i by (auto simp: lex_number_def split: option.splits)
  obtain e where e: "lex_exponent r2 = Some (e, r)"
    using a i f by (auto simp: lex_number_def split: option.splits)
  show ?thesis
    using lex_integer_shorter [OF i] lex_fraction_shorter [OF f] lex_exponent_shorter [OF e]
    by simp
qed

lemma drop1_skip_ws: "length (drop 1 (skip_ws r)) \<le> length r"
  using skip_ws_length [of r] by simp

lemma parse_shorter:
  "parse_value n cs = Accepted v r \<Longrightarrow> length r < length cs"
  "parse_elements n acc cs = Accepted v r \<Longrightarrow> length r < length cs"
  "parse_members n kacc cs = Accepted v r \<Longrightarrow> length r < length cs"
proof (induction n cs and n acc cs and n kacc cs arbitrary: v r and v r and v r
        rule: parse_value_parse_elements_parse_members.induct)
  case (1 cs)
  then show ?case by simp
next
  case (2 n cs)
  obtain c rr where w: "skip_ws cs = c # rr"
    using "2.prems" by (cases "skip_ws cs") simp_all
  have l: "length rr < length cs"
    using skip_ws_length [of cs] w by simp
  have d: "length (drop 1 (skip_ws rr)) < length cs"
    using drop1_skip_ws [of rr] l by simp
  show ?case
  proof (cases "c = CHR ''{''")
    case True
    show ?thesis
    proof (cases "take 1 (skip_ws rr) = ''}''")
      case True
      then show ?thesis using "2.prems" w \<open>c = CHR ''{''\<close> d by simp
    next
      case False
      then have "parse_members n [] rr = Accepted v r"
        using "2.prems" w \<open>c = CHR ''{''\<close> by simp
      then have "length r < length rr"
        using "2.IH"(1) [OF w \<open>c = CHR ''{''\<close> False] by simp
      then show ?thesis using l by simp
    qed
  next
    case nb: False
    show ?thesis
    proof (cases "c = CHR ''[''")
      case True
      show ?thesis
      proof (cases "take 1 (skip_ws rr) = '']''")
        case True
        then show ?thesis using "2.prems" w nb \<open>c = CHR ''[''\<close> d by simp
      next
        case False
        then have "parse_elements n [] rr = Accepted v r"
          using "2.prems" w nb \<open>c = CHR ''[''\<close> by simp
        then have "length r < length rr"
          using "2.IH"(2) [OF w nb \<open>c = CHR ''[''\<close> False] by simp
        then show ?thesis using l by simp
      qed
    next
      case na: False
      have s: "\<And>k. 0 < k \<Longrightarrow> length (drop k (c # rr)) < length cs"
        using l by (simp add: drop_Cons' )
      have m: "\<And>lit. lex_number (c # rr) = Some (lit, r) \<Longrightarrow> length r < length cs"
        using lex_number_shorter [of "c # rr" _ r] l by fastforce
      have q: "\<And>t. lex_string [] rr = Some (t, r) \<Longrightarrow> length r < length cs"
        using lex_string_shorter [of "[]" rr _ r] l by fastforce
      show ?thesis
        using "2.prems" w nb na s [of 4] s [of 5] m q
        by (auto split: if_splits option.splits)
    qed
  qed
next
  case (3 acc cs)
  then show ?case by simp
next
  case (4 n acc cs)
  obtain v1 r1 where p: "parse_value n cs = Accepted v1 r1"
    using "4.prems" by (cases "parse_value n cs") simp_all
  have l: "length r1 < length cs" using "4.IH"(1) [OF p] .
  have d: "length (drop 1 (skip_ws r1)) < length cs"
    using drop1_skip_ws [of r1] l by simp
  show ?case
  proof (cases "take 1 (skip_ws r1) = '',''")
    case True
    then have "parse_elements n (acc @ [v1]) (drop 1 (skip_ws r1)) = Accepted v r"
      using "4.prems" p by simp
    then have "length r < length (drop 1 (skip_ws r1))"
      using "4.IH"(2) [OF p True] by simp
    then show ?thesis using d by simp
  next
    case False
    then show ?thesis using "4.prems" p d by (auto split: if_splits)
  qed
next
  case (5 kacc cs)
  then show ?case by simp
next
  case (6 n kacc cs)
  have q: "\<not> take 1 (skip_ws cs) \<noteq> [CHR 0x22]"
    using "6.prems" by (simp split: if_splits)
  obtain k r1 where s: "lex_string [] (drop 1 (skip_ws cs)) = Some (k, r1)"
    using "6.prems" q by (cases "lex_string [] (drop 1 (skip_ws cs))") auto
  have c: "\<not> take 1 (skip_ws r1) \<noteq> '':''"
    using "6.prems" q s by (simp split: if_splits)
  obtain v1 r2 where p: "parse_value n (drop 1 (skip_ws r1)) = Accepted v1 r2"
    using "6.prems" q s c by (cases "parse_value n (drop 1 (skip_ws r1))") simp_all
  have l1: "length r1 < length cs"
    using lex_string_shorter [OF s] drop1_skip_ws [of cs] by simp
  have l2: "length r2 < length cs"
    using "6.IH"(1) [OF q s refl c p] drop1_skip_ws [of r1] l1 by simp
  have d: "length (drop 1 (skip_ws r2)) < length cs"
    using drop1_skip_ws [of r2] l2 by simp
  show ?case
  proof (cases "take 1 (skip_ws r2) = '',''")
    case True
    then have "parse_members n (kacc @ [(k, v1)]) (drop 1 (skip_ws r2)) = Accepted v r"
      using "6.prems" q s c p by simp
    then have "length r < length (drop 1 (skip_ws r2))"
      using "6.IH"(2) [OF q s refl c p True] by simp
    then show ?thesis using d by simp
  next
    case False
    then show ?thesis using "6.prems" q s c p d by (auto split: if_splits)
  qed
qed

lemma after_separator:
  "take 1 (skip_ws r) = [c] \<Longrightarrow> Suc (length (drop 1 (skip_ws r))) \<le> length r"
proof -
  assume "take 1 (skip_ws r) = [c]"
  then have "skip_ws r \<noteq> []" by auto
  then have "Suc (length (drop 1 (skip_ws r))) = length (skip_ws r)"
    by (cases "skip_ws r") simp_all
  then show ?thesis using skip_ws_length [of r] by simp
qed

lemma parse_fuel:
  "2 * length cs + 1 \<le> n \<Longrightarrow> parse_value n cs \<noteq> OutOfFuel"
  "2 * length cs + 2 \<le> n \<Longrightarrow> parse_elements n acc cs \<noteq> OutOfFuel"
  "2 * length cs + 2 \<le> n \<Longrightarrow> parse_members n kacc cs \<noteq> OutOfFuel"
proof (induction n cs and n acc cs and n kacc cs
        rule: parse_value_parse_elements_parse_members.induct)
  case (1 cs)
  then show ?case by simp
next
  case (2 n cs)
  show ?case
  proof (cases "skip_ws cs")
    case Nil
    then show ?thesis by simp
  next
    case (Cons c rr)
    have l: "2 * length rr + 2 \<le> n"
      using skip_ws_length [of cs] Cons "2.prems" by simp
    show ?thesis
    proof (cases "c = CHR ''{''")
      case True
      show ?thesis
      proof (cases "take 1 (skip_ws rr) = ''}''")
        case True
        then show ?thesis using Cons \<open>c = CHR ''{''\<close> by simp
      next
        case False
        then show ?thesis
          using Cons \<open>c = CHR ''{''\<close> "2.IH"(1) [OF Cons \<open>c = CHR ''{''\<close> False l] by simp
      qed
    next
      case nb: False
      show ?thesis
      proof (cases "c = CHR ''[''")
        case True
        show ?thesis
        proof (cases "take 1 (skip_ws rr) = '']''")
          case True
          then show ?thesis using Cons nb \<open>c = CHR ''[''\<close> by simp
        next
          case False
          then show ?thesis
            using Cons nb \<open>c = CHR ''[''\<close> "2.IH"(2) [OF Cons nb \<open>c = CHR ''[''\<close> False l] by simp
        qed
      next
        case False
        then show ?thesis using Cons nb by (simp split: option.splits)
      qed
    qed
  qed
next
  case (3 acc cs)
  then show ?case by simp
next
  case (4 n acc cs)
  have f: "parse_value n cs \<noteq> OutOfFuel"
    using "4.IH"(1) "4.prems" by simp
  show ?case
  proof (cases "parse_value n cs")
    case OutOfFuel
    then show ?thesis using f by simp
  next
    case Rejected
    then show ?thesis by simp
  next
    case (Accepted v1 r1)
    have l: "length r1 < length cs" using parse_shorter(1) [OF Accepted] .
    show ?thesis
    proof (cases "take 1 (skip_ws r1) = '',''")
      case True
      have "2 * length (drop 1 (skip_ws r1)) + 2 \<le> n"
        using after_separator [OF True] l "4.prems" by simp
      then show ?thesis
        using Accepted True "4.IH"(2) [OF Accepted True] by simp
    next
      case False
      then show ?thesis using Accepted by simp
    qed
  qed
next
  case (5 kacc cs)
  then show ?case by simp
next
  case (6 n kacc cs)
  show ?case
  proof (cases "take 1 (skip_ws cs) \<noteq> [CHR 0x22]")
    case True
    then show ?thesis by simp
  next
    case q: False
    then have q': "take 1 (skip_ws cs) = [CHR 0x22]" by simp
    show ?thesis
    proof (cases "lex_string [] (drop 1 (skip_ws cs))")
      case None
      then show ?thesis using q by simp
    next
      case (Some kr)
      obtain k r1 where kr: "kr = (k, r1)" by (cases kr)
      have s: "lex_string [] (drop 1 (skip_ws cs)) = Some (k, r1)" using Some kr by simp
      have l1: "Suc (length r1) < length cs"
        using lex_string_shorter [OF s] after_separator [OF q'] by simp
      show ?thesis
      proof (cases "take 1 (skip_ws r1) \<noteq> '':''")
        case True
        then show ?thesis using q s by simp
      next
        case c: False
        then have c': "take 1 (skip_ws r1) = '':''" by simp
        have la: "Suc (Suc (length (drop 1 (skip_ws r1)))) < length cs"
          using after_separator [OF c'] l1 by simp
        have f: "parse_value n (drop 1 (skip_ws r1)) \<noteq> OutOfFuel"
          using "6.IH"(1) [OF q s refl c] la "6.prems" by simp
        show ?thesis
        proof (cases "parse_value n (drop 1 (skip_ws r1))")
          case OutOfFuel
          then show ?thesis using f by simp
        next
          case Rejected
          then show ?thesis using q s c by simp
        next
          case (Accepted v1 r2)
          have l2: "length r2 < length (drop 1 (skip_ws r1))"
            using parse_shorter(1) [OF Accepted] .
          show ?thesis
          proof (cases "take 1 (skip_ws r2) = '',''")
            case True
            have "2 * length (drop 1 (skip_ws r2)) + 2 \<le> n"
              using after_separator [OF True] l2 la "6.prems" by simp
            then show ?thesis
              using q s c Accepted True "6.IH"(2) [OF q s refl c Accepted True] by simp
          next
            case False
            then show ?thesis using q s c Accepted by simp
          qed
        qed
      qed
    qed
  qed
qed

lemma JSON_parse_finishes: "JSON_parse t \<noteq> Unfinished"
  using parse_fuel(1) [of t "2 * length t + 2"]
  by (simp add: JSON_parse_def split: attempt.splits)

subsection \<open>Loading the cache\<close>

lemma JSON_parse_null: "JSON_parse ''null'' = Returns JNull"
  by (simp add: JSON_parse_def skip_ws_def is_ws_def eval_nat_numeral)

lemma createCache_without_storage:
  "\<not> has_window env \<or> sessionStorage env = None \<Longrightarrow>
   createCache env = Returns \<lparr>loaded_state = initial_state, loaded_set = NoopSet\<rparr>"
  by (auto simp: createCache_def)

text \<open>
  Claim C5, amended. In a browser with session storage, loading the cache yields the
  initial state \<^verbatim>\<open>{cached:{}, next:{}}\<close> when nothing, or the empty string, is stored under
  the storage key, and when the stored string parses to a falsy value; it throws a
  \<^verbatim>\<open>SyntaxError\<close> exactly when the stored string is non-empty and is not valid JSON.
\<close>

theorem createCache_load:
  assumes "has_window env" and "sessionStorage env = Some getItem"
  shows "(createCache env = Throws SyntaxError \<longleftrightarrow>
            (\<exists>t. getItem storageKey = Some t \<and> t \<noteq> [] \<and> JSON_parse t = Throws SyntaxError))
       \<and> (getItem storageKey = None \<or> getItem storageKey = Some [] \<longrightarrow>
            createCache env = Returns \<lparr>loaded_state = initial_state, loaded_set = PersistSet\<rparr>)
       \<and> (\<forall>t v. getItem storageKey = Some t \<and> JSON_parse t = Returns v \<and> \<not> truthy v \<longrightarrow>
            createCache env = Returns \<lparr>loaded_state = initial_state, loaded_set = PersistSet\<rparr>)
       \<and> createCache env \<noteq> Unfinished"
proof (cases "getItem storageKey")
  case None
  then show ?thesis
    using assms by (simp add: createCache_def JSON_parse_null)
next
  case (Some t)
  show ?thesis
  proof (cases "t = []")
    case True
    then show ?thesis
      using assms Some by (auto simp: createCache_def JSON_parse_null)
  next
    case False
    have "createCache env =
            (case JSON_parse t of
               Throws e \<Rightarrow> Throws e
             | Unfinished \<Rightarrow> Unfinished
             | Returns v \<Rightarrow>
                 Returns \<lparr>loaded_state = (if truthy v then v else initial_state),
                          loaded_set = PersistSet\<rparr>)"
      using assms Some False by (simp add: createCache_def)
    then show ?thesis
      using Some False JSON_parse_finishes [of t]
      by (cases "JSON_parse t") (auto split: exception.splits)
  qed
qed

theorem createCache_load_witness:
  "has_window (example_environment None) \<and>
   createCache (example_environment None) =
     Returns \<lparr>loaded_state = initial_state, loaded_set = PersistSet\<rparr> \<and>
   createCache (example_environment (Some ''false'')) =
     Returns \<lparr>loaded_state = initial_state, loaded_set = PersistSet\<rparr> \<and>
   createCache (example_environment (Some ''undefined'')) = Throws SyntaxError"
  using createCache_load [of "example_environment None" "\<lambda>k. if k = storageKey then None else None"]
    createCache_load [of "example_environment (Some ''false'')"
      "\<lambda>k. if k = storageKey then Some ''false'' else None"]
    createCache_load [of "example_environment (Some ''undefined'')"
      "\<lambda>k. if k = storageKey then Some ''undefined'' else None"]
  by (simp add: example_environment_def JSON_parse_def skip_ws_def is_ws_def eval_nat_numeral
        lex_number_def lex_integer_def is_digit_def)

text \<open>
  Claim C5 as stated fails: with a corrupt string under the storage key (here a
  truncated write), loading the cache throws.
\<close>

theorem createCache_corrupt_counterexample:
  "createCache (example_environment (Some ''{\"cached\":{\"/page1___window\":{\"scrollX\":100,'')) =
     Throws SyntaxError"
  by (simp add: createCache_def example_environment_def JSON_parse_def skip_ws_def is_ws_def
        is_control_def is_escape_def is_digit_def lex_number_def lex_integer_def lex_fraction_def
        lex_exponent_def eval_nat_numeral)

text \<open>A number too small for a double is read as zero, which is falsy: the initial state
  is used.\<close>

lemma JSON_parse_underflow: "JSON_parse ''1e-400'' = Returns (JNumber ''1e-400'')"
  by (simp add: JSON_parse_def skip_ws_def is_ws_def is_digit_def lex_number_def lex_integer_def
        lex_fraction_def lex_exponent_def eval_nat_numeral)

lemma rounds_to_zero_underflow: "rounds_to_zero ''1e-400''"
  by (simp add: rounds_to_zero_def digits_value_def digit_value_def is_digit_def Let_def)

lemma createCache_underflow:
  "createCache (example_environment (Some ''1e-400'')) =
     Returns \<lparr>loaded_state = initial_state, loaded_set = PersistSet\<rparr>"
  by (simp add: createCache_def example_environment_def JSON_parse_underflow
        rounds_to_zero_underflow)

end
